theory Spec2Isabelle
  imports Main "HOL-Library.Word"
begin

unbundle bit_operations_syntax

section \<open>Record layout (ArduinoCrashMonitor.h)\<close>

text \<open>
  The library only builds for AVR controllers, where \<open>int\<close> and data pointers are
  16 bits wide and \<open>size_t\<close> is an unsigned 16-bit type.  \<open>int\<close> values are kept as
  \<open>16 word\<close> and compared with the signed orderings \<open>\<le>s\<close> and \<open><s\<close>; a \<open>uint8_t\<close>
  promoted to \<open>int\<close> is \<open>ucast\<close>.  \<open>PROGRAM_COUNTER_SIZE\<close> is 3 when the macro
  \<open>__AVR_ATmega2560__\<close> is defined and 2 otherwise.
\<close>

datatype mcu = ATmega2560 | OtherAVR

fun PROGRAM_COUNTER_SIZE :: "mcu \<Rightarrow> nat" where
  "PROGRAM_COUNTER_SIZE ATmega2560 = 3"
| "PROGRAM_COUNTER_SIZE OtherAVR = 2"

type_synonym uint8_t = "8 word"
type_synonym uint32_t = "32 word"
type_synonym int_t = "16 word"

record CCrashMonitorHeader =
  savedReports :: uint8_t
  uNextReport :: uint8_t

record CCrashReport =
  auAddress :: "uint8_t list"
  uData :: uint32_t

text \<open>Both structs are packed, so their sizes are the sums of their field widths.\<close>

definition sizeof_header :: nat where
  "sizeof_header = 2"

definition sizeof_report :: "mcu \<Rightarrow> nat" where
  "sizeof_report t = PROGRAM_COUNTER_SIZE t + 4"

text \<open>
  The structs are read and written as raw bytes.  The AVR is little-endian, so the
  32-bit user data occupies four bytes, least significant first.
\<close>

definition bytes_of_u32 :: "uint32_t \<Rightarrow> uint8_t list" where
  "bytes_of_u32 d = [ucast d, ucast (drop_bit 8 d), ucast (drop_bit 16 d), ucast (drop_bit 24 d)]"

fun u32_of_bytes :: "uint8_t list \<Rightarrow> uint32_t" where
  "u32_of_bytes [] = 0"
| "u32_of_bytes (b # bs) = ucast b OR push_bit 8 (u32_of_bytes bs)"

definition bytes_of_header :: "CCrashMonitorHeader \<Rightarrow> uint8_t list" where
  "bytes_of_header h = [savedReports h, uNextReport h]"

definition header_of_bytes :: "uint8_t list \<Rightarrow> CCrashMonitorHeader" where
  "header_of_bytes bs = \<lparr>savedReports = bs ! 0, uNextReport = bs ! 1\<rparr>"

definition bytes_of_report :: "CCrashReport \<Rightarrow> uint8_t list" where
  "bytes_of_report r = auAddress r @ bytes_of_u32 (uData r)"

definition report_of_bytes :: "mcu \<Rightarrow> uint8_t list \<Rightarrow> CCrashReport" where
  "report_of_bytes t bs =
     \<lparr>auAddress = take (PROGRAM_COUNTER_SIZE t) bs,
      uData = u32_of_bytes (take 4 (drop (PROGRAM_COUNTER_SIZE t) bs))\<rparr>"

text \<open>
  \<open>memcpy (dst, src, n)\<close> into a byte array: the first \<open>n\<close> bytes of the destination are
  replaced by the \<open>n\<close> bytes found at the source pointer.  The source is the memory at
  the pointer, indexed by offset.
\<close>

definition memcpy :: "uint8_t list \<Rightarrow> (nat \<Rightarrow> uint8_t) \<Rightarrow> nat \<Rightarrow> uint8_t list" where
  "memcpy dst src n = map src [0..<n] @ drop n dst"

text \<open>
  \<open>uAddress = 0; memcpy (&uAddress, report.auAddress, PROGRAM_COUNTER_SIZE)\<close>: the
  location bytes become the low bytes of a 32-bit value.
\<close>

definition location_value :: "mcu \<Rightarrow> CCrashReport \<Rightarrow> uint32_t" where
  "location_value t r =
     u32_of_bytes (memcpy [0, 0, 0, 0] (\<lambda>i. auAddress r ! i) (PROGRAM_COUNTER_SIZE t))"

section \<open>Static state and the EEPROM\<close>

text \<open>
  The static members of \<open>CrashMonitor\<close> together with the EEPROM, a byte store addressed
  by 16-bit pointers.  \<open>userCrashHandler\<close> records whether the hook pointer is non-NULL.
\<close>

record CrashMonitor =
  nBaseAddress :: int_t
  nMaxEntries :: int_t
  crashReport :: CCrashReport
  userCrashHandler :: bool
  eeprom :: "int_t \<Rightarrow> uint8_t"

definition DEFAULT_ENTRIES :: int_t where
  "DEFAULT_ENTRIES = 10"

text \<open>The static initialisers, over a given EEPROM content.\<close>

definition init_statics :: "mcu \<Rightarrow> (int_t \<Rightarrow> uint8_t) \<Rightarrow> CrashMonitor" where
  "init_statics t e =
     \<lparr>nBaseAddress = 500, nMaxEntries = DEFAULT_ENTRIES,
      crashReport = \<lparr>auAddress = replicate (PROGRAM_COUNTER_SIZE t) 0, uData = 0\<rparr>,
      userCrashHandler = False, eeprom = e\<rparr>"

definition begin' :: "CrashMonitor \<Rightarrow> int_t \<Rightarrow> int_t \<Rightarrow> CrashMonitor" where
  "begin' m baseAddress maxEntries =
     m\<lparr>nBaseAddress := baseAddress, nMaxEntries := maxEntries,
       crashReport := (crashReport m)\<lparr>uData := 0\<rparr>\<rparr>"

definition setData :: "CrashMonitor \<Rightarrow> uint32_t \<Rightarrow> CrashMonitor" where
  "setData m d = m\<lparr>crashReport := (crashReport m)\<lparr>uData := d\<rparr>\<rparr>"

definition getData :: "CrashMonitor \<Rightarrow> uint32_t" where
  "getData m = uData (crashReport m)"

definition setUserCrashHandler :: "CrashMonitor \<Rightarrow> bool \<Rightarrow> CrashMonitor" where
  "setUserCrashHandler m onUserCrashEvent = m\<lparr>userCrashHandler := onUserCrashEvent\<rparr>"

section \<open>Block input and output\<close>

text \<open>
  \<open>readBlock\<close> and \<open>writeBlock\<close> move \<open>uSize\<close> bytes one at a time, advancing the address
  after each byte; every caller passes a \<open>sizeof\<close> of at most 7.
\<close>

fun readBlock :: "(int_t \<Rightarrow> uint8_t) \<Rightarrow> int_t \<Rightarrow> nat \<Rightarrow> uint8_t list" where
  "readBlock e baseAddress 0 = []"
| "readBlock e baseAddress (Suc uSize) = e baseAddress # readBlock e (baseAddress + 1) uSize"

fun writeBlock :: "(int_t \<Rightarrow> uint8_t) \<Rightarrow> int_t \<Rightarrow> uint8_t list \<Rightarrow> (int_t \<Rightarrow> uint8_t)" where
  "writeBlock e baseAddress [] = e"
| "writeBlock e baseAddress (b # bs) = writeBlock (e(baseAddress := b)) (baseAddress + 1) bs"

section \<open>The report store\<close>

definition loadHeader :: "CrashMonitor \<Rightarrow> CCrashMonitorHeader" where
  "loadHeader m =
     (let reportHeader = header_of_bytes (readBlock (eeprom m) (nBaseAddress m) sizeof_header);
          reportHeader =
            (if savedReports reportHeader = 0xff then reportHeader\<lparr>savedReports := 0\<rparr>
             else if nMaxEntries m <s ucast (savedReports reportHeader)
               then reportHeader\<lparr>savedReports := ucast (nMaxEntries m)\<rparr>
             else reportHeader)
      in if nMaxEntries m \<le>s ucast (uNextReport reportHeader)
         then reportHeader\<lparr>uNextReport := 0\<rparr>
         else reportHeader)"

definition saveHeader :: "CrashMonitor \<Rightarrow> CCrashMonitorHeader \<Rightarrow> CrashMonitor" where
  "saveHeader m reportHeader =
     m\<lparr>eeprom := writeBlock (eeprom m) (nBaseAddress m) (bytes_of_header reportHeader)\<rparr>"

definition getAddressForReport :: "mcu \<Rightarrow> CrashMonitor \<Rightarrow> int_t \<Rightarrow> int_t" where
  "getAddressForReport t m report =
     (let address = nBaseAddress m + of_nat sizeof_header
      in if report <s nMaxEntries m
         then address + report * of_nat (sizeof_report t)
         else address)"

definition saveCurrentReport :: "mcu \<Rightarrow> CrashMonitor \<Rightarrow> int_t \<Rightarrow> CrashMonitor" where
  "saveCurrentReport t m reportSlot =
     (let addr = getAddressForReport t m reportSlot
      in m\<lparr>eeprom := writeBlock (eeprom m) addr (bytes_of_report (crashReport m))\<rparr>)"

definition loadReport :: "mcu \<Rightarrow> CrashMonitor \<Rightarrow> int_t \<Rightarrow> CCrashReport" where
  "loadReport t m report =
     (let state = report_of_bytes t
                    (readBlock (eeprom m) (getAddressForReport t m report) (sizeof_report t));
          temp = auAddress state ! 0;
          state = state\<lparr>auAddress :=
                    (auAddress state)[0 := auAddress state ! (PROGRAM_COUNTER_SIZE t - 1)]\<rparr>
      in state\<lparr>auAddress := (auAddress state)[PROGRAM_COUNTER_SIZE t - 1 := temp]\<rparr>)"

definition isFull :: "CrashMonitor \<Rightarrow> bool" where
  "isFull m = (let header = loadHeader m in nMaxEntries m \<le>s ucast (savedReports header))"

section \<open>Dumping and clearing\<close>

text \<open>
  The \<open>Print\<close> destination is an external text sink; what \<open>dump\<close> sends to it is kept
  as the sequence of print calls: a flash string, a number with its radix, a line end.
\<close>

datatype print_item = Str string | Num uint32_t nat | NewLine

definition DEC :: nat where
  "DEC = 10"

definition HEX :: nat where
  "HEX = 16"

definition printValue :: "string \<Rightarrow> uint32_t \<Rightarrow> nat \<Rightarrow> bool \<Rightarrow> print_item list" where
  "printValue pLabel uValue uRadix newLine =
     [Str pLabel, Num uValue uRadix] @ (if newLine then [NewLine] else [])"

text \<open>The body of the \<open>for\<close> loop of \<open>dump\<close> for one report index.\<close>

definition dump_report :: "mcu \<Rightarrow> CrashMonitor \<Rightarrow> uint8_t \<Rightarrow> print_item list" where
  "dump_report t m uReport =
     (let report = loadReport t m (ucast uReport);
          uAddress = location_value t report
      in [Num (ucast uReport) DEC]
         @ printValue '': word-address=0x'' uAddress HEX False
         @ printValue '': byte-address=0x'' (uAddress * 2) HEX False
         @ printValue '', data=0x'' (uData report) HEX True)"

function dump_loop :: "mcu \<Rightarrow> CrashMonitor \<Rightarrow> uint8_t \<Rightarrow> uint8_t \<Rightarrow> print_item list" where
  "dump_loop t m saved uReport =
     (if uReport < saved
      then dump_report t m uReport @ dump_loop t m saved (uReport + 1)
      else [])"
  by pat_completeness auto
termination
proof (relation "measure (\<lambda>(t, m, saved, uReport). unat saved - unat uReport)")
  fix t :: mcu and m :: CrashMonitor and saved uReport :: uint8_t
  assume "uReport < saved"
  then show "((t, m, saved, uReport + 1), (t, m, saved, uReport))
               \<in> measure (\<lambda>(t, m, saved, uReport). unat saved - unat uReport)"
    using unsigned_less [of saved, where 'a = nat]
    by (auto simp: word_less_nat_alt unat_word_ariths)
qed simp

definition dump :: "mcu \<Rightarrow> CrashMonitor \<Rightarrow> bool \<Rightarrow> print_item list" where
  "dump t m onlyIfPresent =
     (let header = loadHeader m
      in if \<not> onlyIfPresent \<or> savedReports header \<noteq> 0
         then [Str ''Crash Monitor'', NewLine, Str ''-------------'', NewLine]
              @ printValue ''Saved reports: '' (ucast (savedReports header)) DEC True
              @ printValue ''Next report: '' (ucast (uNextReport header)) DEC True
              @ dump_loop t m (savedReports header) 0
         else [])"

text \<open>
  The inner loop of \<open>clear\<close>: \<open>sz\<close> zero bytes are written at the 32-bit \<open>uAddress\<close>,
  which is cast to a (16-bit) EEPROM pointer and advanced after each byte.
\<close>

fun zero_bytes :: "(int_t \<Rightarrow> uint8_t) \<Rightarrow> uint32_t \<Rightarrow> nat \<Rightarrow> (int_t \<Rightarrow> uint8_t)" where
  "zero_bytes e uAddress 0 = e"
| "zero_bytes e uAddress (Suc sz) = zero_bytes (e(ucast uAddress := 0)) (uAddress + 1) sz"

text \<open>The body of the outer loop of \<open>clear\<close> for one report index.\<close>

definition clear_report :: "mcu \<Rightarrow> CrashMonitor \<Rightarrow> uint8_t \<Rightarrow> CrashMonitor" where
  "clear_report t m uReport =
     (let report = loadReport t m (ucast uReport);
          uAddress = location_value t report
      in m\<lparr>eeprom := zero_bytes (eeprom m) uAddress (sizeof_report t)\<rparr>)"

function clear_loop :: "mcu \<Rightarrow> CrashMonitor \<Rightarrow> uint8_t \<Rightarrow> uint8_t \<Rightarrow> CrashMonitor" where
  "clear_loop t m saved uReport =
     (if uReport < saved
      then clear_loop t (clear_report t m uReport) saved (uReport + 1)
      else m)"
  by pat_completeness auto
termination
proof (relation "measure (\<lambda>(t, m, saved, uReport). unat saved - unat uReport)")
  fix t :: mcu and m :: CrashMonitor and saved uReport :: uint8_t
  assume "uReport < saved"
  then show "((t, clear_report t m uReport, saved, uReport + 1), (t, m, saved, uReport))
               \<in> measure (\<lambda>(t, m, saved, uReport). unat saved - unat uReport)"
    using unsigned_less [of saved, where 'a = nat]
    by (auto simp: word_less_nat_alt unat_word_ariths)
qed simp

definition clear :: "mcu \<Rightarrow> CrashMonitor \<Rightarrow> CrashMonitor" where
  "clear t m =
     (let header = loadHeader m;
          m = (if savedReports header \<noteq> 0 then clear_loop t m (savedReports header) 0 else m);
          header = header\<lparr>savedReports := 0\<rparr>;
          header = header\<lparr>uNextReport := 0\<rparr>
      in saveHeader m header)"

section \<open>Crash capture\<close>

text \<open>
  The handler stores the report and the updated header, arms the watchdog again and
  then either runs the user hook or spins until the reset; it does not come back to
  the interrupted program.  The result is the state at that point together with the way
  the handler ends.
\<close>

datatype ending = UserHook | WaitingForReset

definition watchDogInterruptHandler ::
    "mcu \<Rightarrow> CrashMonitor \<Rightarrow> (nat \<Rightarrow> uint8_t) \<Rightarrow> CrashMonitor \<times> ending" where
  "watchDogInterruptHandler t m puProgramAddress =
     (let header = loadHeader m;
          m = m\<lparr>crashReport := (crashReport m)\<lparr>auAddress :=
                 memcpy (auAddress (crashReport m)) puProgramAddress (PROGRAM_COUNTER_SIZE t)\<rparr>\<rparr>;
          m = saveCurrentReport t m (ucast (uNextReport header));
          header = header\<lparr>uNextReport := uNextReport header + 1\<rparr>;
          header =
            (if nMaxEntries m \<le>s ucast (uNextReport header)
             then header\<lparr>uNextReport := 0\<rparr>
             else header\<lparr>savedReports := savedReports header + 1\<rparr>);
          m = saveHeader m header
      in (m, if userCrashHandler m then UserHook else WaitingForReset))"

text \<open>
  A run of successive captures: before each one the application has set the user data,
  and the watchdog fires with the given bytes on the stack.
\<close>

definition capture :: "mcu \<Rightarrow> CrashMonitor \<Rightarrow> (nat \<Rightarrow> uint8_t) \<times> uint32_t \<Rightarrow> CrashMonitor" where
  "capture t m c = fst (watchDogInterruptHandler t (setData m (snd c)) (fst c))"

definition captures ::
    "mcu \<Rightarrow> CrashMonitor \<Rightarrow> ((nat \<Rightarrow> uint8_t) \<times> uint32_t) list \<Rightarrow> CrashMonitor" where
  "captures t m cs = foldl (capture t) m cs"

text \<open>
  Erased EEPROM reads \<open>0xff\<close> everywhere.  \<open>fresh t maxEntries\<close> is a device with erased
  EEPROM after \<open>begin (500, maxEntries)\<close>.
\<close>

definition erased :: "int_t \<Rightarrow> uint8_t" where
  "erased a = 0xff"

definition fresh :: "mcu \<Rightarrow> int_t \<Rightarrow> CrashMonitor" where
  "fresh t maxEntries = begin' (init_statics t erased) 500 maxEntries"

text \<open>
  The bytes that the handler finds at \<open>puProgramAddress\<close> when the interrupted program
  counter was \<open>a\<close>: the AVR pushes the return address so that its most significant byte
  lies at the lowest address.  Bytes beyond \<open>PROGRAM_COUNTER_SIZE\<close> are not read by the
  handler.
\<close>

definition stacked_pc :: "mcu \<Rightarrow> uint32_t \<Rightarrow> nat \<Rightarrow> uint8_t" where
  "stacked_pc t a i =
     (if i < PROGRAM_COUNTER_SIZE t
      then ucast (drop_bit (8 * (PROGRAM_COUNTER_SIZE t - 1 - i)) a) else 0)"

text \<open>An empty store: the same device after a header with both counters 0 was saved.\<close>

definition empty_store :: "mcu \<Rightarrow> int_t \<Rightarrow> CrashMonitor" where
  "empty_store t maxEntries =
     saveHeader (fresh t maxEntries) \<lparr>savedReports = 0, uNextReport = 0\<rparr>"

section \<open>Integer promotion and conversion\<close>

lemma sint_ucast_8_16: "sint (ucast (x :: 8 word) :: 16 word) = uint x"
proof -
  have "uint x < 2 ^ 8" using uint_bounded [of x] by simp
  then have "uint x < 2 ^ 15" by simp
  moreover have "- (2 ^ 15) \<le> uint x" by (rule order_trans [of _ 0]) simp_all
  ultimately have "signed_take_bit 15 (uint x) = uint x"
    by (rule signed_take_bit_int_eq_self [rotated])
  then show ?thesis
    by (simp add: sint_uint is_up uint_up_ucast)
qed

lemma sle_ucast: "(M :: 16 word) \<le>s ucast (x :: 8 word) \<longleftrightarrow> sint M \<le> uint x"
  by (simp add: word_sle_eq sint_ucast_8_16)

lemma sless_ucast: "(M :: 16 word) <s ucast (x :: 8 word) \<longleftrightarrow> sint M < uint x"
  by (simp add: word_sless_alt sint_ucast_8_16)

lemma ucast_sless: "ucast (x :: 8 word) <s (M :: 16 word) \<longleftrightarrow> uint x < sint M"
  by (simp add: word_sless_alt sint_ucast_8_16)

lemma uint_eq_sint_16:
  assumes "0 \<le> sint (M :: 16 word)"
  shows "uint M = sint M"
proof -
  have "sint M < 2 ^ 16" using sint_lt [of M] by simp
  with assms show ?thesis by (simp add: uint_sint [of M] take_bit_int_eq_self)
qed

lemma ucast_16_8_small:
  assumes "0 \<le> sint (M :: 16 word)" "sint M < 256"
  shows "uint (ucast M :: 8 word) = sint M"
  using assms uint_eq_sint_16 [OF assms(1)]
  by (simp add: unsigned_ucast_eq take_bit_eq_mod)

lemma readBlock_2: "readBlock e a 2 = [e a, e (a + 1)]"
  by (simp add: numeral_2_eq_2)

lemma fresh_simps:
  "nBaseAddress (fresh t M) = 500" "nMaxEntries (fresh t M) = M"
  "eeprom (fresh t M) = erased" "userCrashHandler (fresh t M) = False"
  "crashReport (fresh t M) = \<lparr>auAddress = replicate (PROGRAM_COUNTER_SIZE t) 0, uData = 0\<rparr>"
  by (simp_all add: fresh_def begin'_def init_statics_def)

section \<open>Loading the header\<close>

text \<open>
  C2.  Whatever bytes the header region holds, and for every \<open>maxEntries \<ge> 1\<close>,
  \<open>loadHeader\<close> (a total function) returns a header that is in range: a raw
  \<open>savedReports\<close> byte of \<open>0xff\<close> is read as 0, \<open>0 \<le> savedReports \<le> maxEntries\<close> and
  \<open>0 \<le> nextReport < maxEntries\<close>.
\<close>

theorem loadHeader_in_range:
  assumes "1 \<le>s nMaxEntries m"
  shows "(eeprom m (nBaseAddress m) = 0xff \<longrightarrow> savedReports (loadHeader m) = 0)
       \<and> 0 \<le> uint (savedReports (loadHeader m))
       \<and> uint (savedReports (loadHeader m)) \<le> sint (nMaxEntries m)
       \<and> 0 \<le> uint (uNextReport (loadHeader m))
       \<and> uint (uNextReport (loadHeader m)) < sint (nMaxEntries m)"
proof -
  let ?M = "nMaxEntries m"
  let ?s = "eeprom m (nBaseAddress m)"
  from assms have M: "1 \<le> sint ?M" by (simp add: word_sle_eq)
  have clamp: "uint (ucast ?M :: 8 word) = sint ?M" if "sint ?M < uint ?s"
  proof -
    have "uint ?s < 256" using uint_bounded [of ?s] by simp
    with that M show ?thesis by (intro ucast_16_8_small) simp_all
  qed
  show ?thesis
    using M clamp
    by (simp add: loadHeader_def Let_def header_of_bytes_def sizeof_header_def readBlock_2
          sle_ucast sless_ucast)
qed

theorem loadHeader_in_range_witness:
  "1 \<le>s nMaxEntries (fresh OtherAVR 10)
   \<and> eeprom (fresh OtherAVR 10) (nBaseAddress (fresh OtherAVR 10)) = 0xff
   \<and> savedReports (loadHeader (fresh OtherAVR 10)) = 0
   \<and> uint (uNextReport (loadHeader (fresh OtherAVR 10))) < 10"
  using loadHeader_in_range [of "fresh OtherAVR 10"]
  by (simp add: fresh_simps erased_def word_sle_eq)

text \<open>
  C9 (as amended).  A raw \<open>savedReports\<close> byte of \<open>0xff\<close> is the erased-EEPROM sentinel
  and loads as 0.  Every other raw byte that is strictly greater than \<open>maxEntries\<close> loads
  as the low byte of \<open>maxEntries\<close>, which is \<open>maxEntries\<close> itself whenever
  \<open>maxEntries \<ge> 0\<close>.
\<close>

theorem loadHeader_clamps_savedReports:
  "(eeprom m (nBaseAddress m) = 0xff \<longrightarrow> savedReports (loadHeader m) = 0)
   \<and> (eeprom m (nBaseAddress m) \<noteq> 0xff \<and> nMaxEntries m <s ucast (eeprom m (nBaseAddress m))
        \<longrightarrow> savedReports (loadHeader m) = ucast (nMaxEntries m)
            \<and> (0 \<le>s nMaxEntries m \<longrightarrow> uint (savedReports (loadHeader m)) = sint (nMaxEntries m)))"
proof -
  let ?M = "nMaxEntries m"
  let ?s = "eeprom m (nBaseAddress m)"
  have clamp: "uint (ucast ?M :: 8 word) = sint ?M" if "sint ?M < uint ?s" "0 \<le> sint ?M"
  proof -
    have "uint ?s < 256" using uint_bounded [of ?s] by simp
    with that show ?thesis by (intro ucast_16_8_small) simp_all
  qed
  show ?thesis
    using clamp
    by (simp add: loadHeader_def Let_def header_of_bytes_def sizeof_header_def readBlock_2
          sle_ucast sless_ucast word_sle_eq)
qed

theorem loadHeader_clamps_savedReports_witness:
  "eeprom ((fresh OtherAVR 10)\<lparr>eeprom := erased(500 := 42)\<rparr>) 500 \<noteq> 0xff
   \<and> (10 :: int_t) <s ucast (42 :: uint8_t) \<and> (0 :: int_t) \<le>s 10
   \<and> savedReports (loadHeader ((fresh OtherAVR 10)\<lparr>eeprom := erased(500 := 42)\<rparr>)) = 10"
  using loadHeader_clamps_savedReports [of "(fresh OtherAVR 10)\<lparr>eeprom := erased(500 := 42)\<rparr>"]
  by (simp add: fresh_simps erased_def word_sle_eq word_sless_alt)

theorem loadHeader_sentinel_not_clamped:
  "nMaxEntries (fresh OtherAVR 10)
     <s ucast (eeprom (fresh OtherAVR 10) (nBaseAddress (fresh OtherAVR 10)))
   \<and> uint (savedReports (loadHeader (fresh OtherAVR 10))) \<noteq> sint (nMaxEntries (fresh OtherAVR 10))"
  by (simp add: loadHeader_def Let_def header_of_bytes_def sizeof_header_def readBlock_2
        fresh_simps erased_def word_sless_alt)

section \<open>Slot addresses\<close>

text \<open>
  C10.  \<open>getAddressForReport\<close> is defined for every \<open>int\<close> index.  For an index
  \<open>i \<ge> maxEntries\<close> it returns \<open>base + sizeof (header)\<close>, which is also the address it
  returns for slot 0.
\<close>

theorem getAddressForReport_out_of_range:
  "nMaxEntries m \<le>s i \<Longrightarrow>
     getAddressForReport t m i = nBaseAddress m + of_nat sizeof_header
     \<and> getAddressForReport t m 0 = nBaseAddress m + of_nat sizeof_header"
  by (auto simp: getAddressForReport_def Let_def word_sle_eq word_sless_alt)

theorem getAddressForReport_out_of_range_witness:
  "nMaxEntries (fresh OtherAVR 10) \<le>s 12
   \<and> getAddressForReport OtherAVR (fresh OtherAVR 10) 12 = 502
   \<and> getAddressForReport OtherAVR (fresh OtherAVR 10) 0 = 502"
  using getAddressForReport_out_of_range [of "fresh OtherAVR 10" 12 OtherAVR]
  by (simp add: fresh_simps sizeof_header_def word_sle_eq)

section \<open>Blocks of bytes\<close>

lemma length_readBlock [simp]: "length (readBlock e a n) = n"
  by (induction n arbitrary: a) simp_all

lemma readBlock_nth:
  "i < n \<Longrightarrow> readBlock e a n ! i = e (a + of_nat i)"
proof (induction n arbitrary: a i)
  case 0
  then show ?case by simp
next
  case (Suc n)
  then show ?case by (cases i) (simp_all add: add.assoc)
qed

lemma of_nat_16_inj:
  "i < 65536 \<Longrightarrow> j < 65536 \<Longrightarrow> (of_nat i :: 16 word) = of_nat j \<longleftrightarrow> i = j"
  by (simp add: word_of_nat_eq_iff take_bit_nat_eq_self)

lemma writeBlock_outside:
  "(\<And>i. i < length bs \<Longrightarrow> x \<noteq> a + of_nat i) \<Longrightarrow> writeBlock e a bs x = e x"
proof (induction bs arbitrary: e a)
  case Nil
  then show ?case by simp
next
  case (Cons b bs)
  have "x \<noteq> a" using Cons.prems [of 0] by simp
  moreover have "writeBlock (e(a := b)) (a + 1) bs x = (e(a := b)) x"
  proof (rule Cons.IH)
    fix i assume "i < length bs"
    then show "x \<noteq> a + 1 + of_nat i" using Cons.prems [of "Suc i"] by (simp add: add.assoc)
  qed
  ultimately show ?case by simp
qed

lemma writeBlock_inside:
  "length bs \<le> 65536 \<Longrightarrow> i < length bs \<Longrightarrow> writeBlock e a bs (a + of_nat i) = bs ! i"
proof (induction bs arbitrary: e a i)
  case Nil
  then show ?case by simp
next
  case (Cons b bs)
  show ?case
  proof (cases i)
    case 0
    have "writeBlock (e(a := b)) (a + 1) bs a = (e(a := b)) a"
    proof (rule writeBlock_outside)
      fix j assume j: "j < length bs"
      have "(of_nat (Suc j) :: 16 word) \<noteq> of_nat 0"
        using j Cons.prems(1) by (subst of_nat_16_inj) simp_all
      then show "a \<noteq> a + 1 + of_nat j" by (simp add: add.assoc)
    qed
    with 0 show ?thesis by simp
  next
    case (Suc k)
    with Cons.prems have "writeBlock (e(a := b)) (a + 1) bs (a + 1 + of_nat k) = bs ! k"
      by (intro Cons.IH) simp_all
    with Suc show ?thesis by (simp add: add.assoc)
  qed
qed

lemma readBlock_writeBlock_same:
  assumes "length bs \<le> 65536"
  shows "readBlock (writeBlock e a bs) a (length bs) = bs"
  by (rule nth_equalityI) (simp_all add: readBlock_nth writeBlock_inside assms)

lemma readBlock_cong:
  "(\<And>i. i < n \<Longrightarrow> e (a + of_nat i) = e' (a + of_nat i)) \<Longrightarrow> readBlock e a n = readBlock e' a n"
  by (rule nth_equalityI) (simp_all add: readBlock_nth)

lemma readBlock_6:
  "readBlock e a 6 = [e a, e (a + 1), e (a + 2), e (a + 3), e (a + 4), e (a + 5)]"
  by (simp add: eval_nat_numeral add.assoc)

lemma readBlock_7:
  "readBlock e a 7 = [e a, e (a + 1), e (a + 2), e (a + 3), e (a + 4), e (a + 5), e (a + 6)]"
  by (simp add: eval_nat_numeral add.assoc)

lemma u32_roundtrip: "u32_of_bytes (bytes_of_u32 d) = d"
proof (rule bit_eqI)
  fix n
  assume "possible_bit TYPE(32 word) n"
  then have n: "n < 32" by (simp add: possible_bit_word)
  consider "n < 8" | "8 \<le> n" "n < 16" | "16 \<le> n" "n < 24" | "24 \<le> n" by linarith
  then show "bit (u32_of_bytes (bytes_of_u32 d)) n = bit d n"
    using n by cases (auto simp add: bytes_of_u32_def bit_simps)
qed

lemma length_bytes_of_u32 [simp]: "length (bytes_of_u32 d) = 4"
  by (simp add: bytes_of_u32_def)


lemma sizeof_report_le: "sizeof_report t \<le> 7"
  by (cases t) (simp_all add: sizeof_report_def)


lemma getAddressForReport_eeprom [simp]:
  "getAddressForReport t (m\<lparr>eeprom := e\<rparr>) i = getAddressForReport t m i"
  by (simp add: getAddressForReport_def)

section \<open>Saving and loading a report\<close>



text \<open>
  C8.  The fix-up of \<open>loadReport\<close> exchanges the first and the last byte of the location
  field and changes nothing else.  With a 2-byte location the two bytes read from the
  slot change places; with a 3-byte location the bytes at offsets 0 and 2 change places
  and the byte at offset 1 stays.  The user data is the four bytes that follow, as read.
\<close>

theorem loadReport_swaps_ends:
  "loadReport OtherAVR m i =
     \<lparr>auAddress = [eeprom m (getAddressForReport OtherAVR m i + 1),
                   eeprom m (getAddressForReport OtherAVR m i)],
      uData = u32_of_bytes
                [eeprom m (getAddressForReport OtherAVR m i + 2),
                 eeprom m (getAddressForReport OtherAVR m i + 3),
                 eeprom m (getAddressForReport OtherAVR m i + 4),
                 eeprom m (getAddressForReport OtherAVR m i + 5)]\<rparr>
   \<and> loadReport ATmega2560 m i =
     \<lparr>auAddress = [eeprom m (getAddressForReport ATmega2560 m i + 2),
                   eeprom m (getAddressForReport ATmega2560 m i + 1),
                   eeprom m (getAddressForReport ATmega2560 m i)],
      uData = u32_of_bytes
                [eeprom m (getAddressForReport ATmega2560 m i + 3),
                 eeprom m (getAddressForReport ATmega2560 m i + 4),
                 eeprom m (getAddressForReport ATmega2560 m i + 5),
                 eeprom m (getAddressForReport ATmega2560 m i + 6)]\<rparr>"
  by (simp add: loadReport_def Let_def report_of_bytes_def sizeof_report_def readBlock_6 readBlock_7)

section \<open>The capture handler\<close>

lemma ucast_8_16_of_nat: "(ucast (x :: 8 word) :: 16 word) = of_nat (unat x)"
  by simp

lemma unat_8_lt: "unat (x :: 8 word) < 256"
  using unsigned_less [of x, where 'a = nat] by simp

lemma getAddressForReport_ucast:
  "getAddressForReport t m (ucast (x :: 8 word)) =
     nBaseAddress m
       + of_nat (2 + (if uint x < sint (nMaxEntries m) then unat x * sizeof_report t else 0))"
  by (simp add: getAddressForReport_def Let_def ucast_sless sizeof_header_def add.assoc)

lemma slot_offset_bound:
  "2 + (if c then unat (x :: 8 word) * sizeof_report t else 0) + sizeof_report t \<le> 65536"
proof -
  have "unat x * sizeof_report t \<le> 255 * 7"
    using unat_8_lt [of x] sizeof_report_le [of t] by (intro mult_mono) simp_all
  then show ?thesis using sizeof_report_le [of t] by simp
qed

lemma add_of_nat_16_inj:
  "i < 65536 \<Longrightarrow> j < 65536 \<Longrightarrow> (b :: 16 word) + of_nat i = b + of_nat j \<longleftrightarrow> i = j"
  by (simp add: of_nat_16_inj)

lemma readBlock_writeBlock_disjoint:
  assumes "p + length bs \<le> q \<or> q + n \<le> p" "p + length bs \<le> 65536" "q + n \<le> 65536"
  shows "readBlock (writeBlock e (b + of_nat p) bs) (b + of_nat q) n = readBlock e (b + of_nat q) n"
proof (rule readBlock_cong)
  fix i assume i: "i < n"
  show "writeBlock e (b + of_nat p) bs (b + of_nat q + of_nat i) = e (b + of_nat q + of_nat i)"
  proof (rule writeBlock_outside)
    fix j assume j: "j < length bs"
    have "b + of_nat (q + i) \<noteq> b + of_nat (p + j)"
      using assms i j by (subst add_of_nat_16_inj) auto
    then show "b + of_nat q + of_nat i \<noteq> b + of_nat p + of_nat j"
      by (simp add: add.assoc)
  qed
qed

lemma length_memcpy:
  "length dst = n \<Longrightarrow> memcpy dst src n = map src [0..<n]"
  by (simp add: memcpy_def)

lemma handler_fields:
  "nBaseAddress (fst (watchDogInterruptHandler t m pc)) = nBaseAddress m"
  "nMaxEntries (fst (watchDogInterruptHandler t m pc)) = nMaxEntries m"
  "userCrashHandler (fst (watchDogInterruptHandler t m pc)) = userCrashHandler m"
  "crashReport (fst (watchDogInterruptHandler t m pc)) =
     (crashReport m)\<lparr>auAddress := memcpy (auAddress (crashReport m)) pc (PROGRAM_COUNTER_SIZE t)\<rparr>"
  by (simp_all add: watchDogInterruptHandler_def Let_def saveHeader_def saveCurrentReport_def)

lemma handler_eeprom:
  "eeprom (fst (watchDogInterruptHandler t m pc)) =
     writeBlock
       (writeBlock (eeprom m) (getAddressForReport t m (ucast (uNextReport (loadHeader m))))
          (memcpy (auAddress (crashReport m)) pc (PROGRAM_COUNTER_SIZE t)
             @ bytes_of_u32 (uData (crashReport m))))
       (nBaseAddress m)
       (if nMaxEntries m \<le>s ucast (uNextReport (loadHeader m) + 1)
        then [savedReports (loadHeader m), 0]
        else [savedReports (loadHeader m) + 1, uNextReport (loadHeader m) + 1])"
  by (simp add: watchDogInterruptHandler_def Let_def saveHeader_def saveCurrentReport_def
        bytes_of_report_def bytes_of_header_def getAddressForReport_def)

lemma slot_address_ex:
  "\<exists>k. getAddressForReport t m (ucast (x :: 8 word)) = nBaseAddress m + of_nat (2 + k)
       \<and> 2 + k + sizeof_report t \<le> 65536"
  using slot_offset_bound [of "uint x < sint (nMaxEntries m)" x t]
    getAddressForReport_ucast [of t m x]
  by blast

text \<open>
  C1.  A capture loads and validates the header, stores the working report (the bytes
  found at \<open>puProgramAddress\<close> followed by the user data) in the slot indexed by the
  loaded \<open>uNextReport\<close>, and then stores the updated header: \<open>uNextReport\<close> is
  incremented and set to 0 when it has reached \<open>maxEntries\<close>; \<open>savedReports\<close> is
  incremented exactly when the incremented \<open>uNextReport\<close> is still below \<open>maxEntries\<close>.
  Both are read back from the EEPROM after the handler.
\<close>

theorem watchDogInterruptHandler_persists:
  assumes "length (auAddress (crashReport m)) = PROGRAM_COUNTER_SIZE t"
  shows "readBlock (eeprom (fst (watchDogInterruptHandler t m pc)))
           (getAddressForReport t m (ucast (uNextReport (loadHeader m)))) (sizeof_report t)
         = map pc [0..<PROGRAM_COUNTER_SIZE t] @ bytes_of_u32 (uData (crashReport m))
       \<and> readBlock (eeprom (fst (watchDogInterruptHandler t m pc))) (nBaseAddress m) sizeof_header
         = (if nMaxEntries m \<le>s ucast (uNextReport (loadHeader m) + 1)
            then [savedReports (loadHeader m), 0]
            else [savedReports (loadHeader m) + 1, uNextReport (loadHeader m) + 1])"
proof -
  let ?h = "loadHeader m"
  let ?rb = "map pc [0..<PROGRAM_COUNTER_SIZE t] @ bytes_of_u32 (uData (crashReport m))"
  let ?hb = "if nMaxEntries m \<le>s ucast (uNextReport ?h + 1)
             then [savedReports ?h, 0] else [savedReports ?h + 1, uNextReport ?h + 1]"
  let ?slot = "getAddressForReport t m (ucast (uNextReport ?h))"
  let ?e1 = "writeBlock (eeprom m) ?slot ?rb"
  obtain k where k: "?slot = nBaseAddress m + of_nat (2 + k)" "2 + k + sizeof_report t \<le> 65536"
    using slot_address_ex by blast
  have ee: "eeprom (fst (watchDogInterruptHandler t m pc)) = writeBlock ?e1 (nBaseAddress m) ?hb"
    by (simp only: handler_eeprom length_memcpy [OF assms])
  have lrb: "length ?rb = sizeof_report t" by (simp add: sizeof_report_def)
  have lhb: "length ?hb = 2" by simp
  have "readBlock (writeBlock ?e1 (nBaseAddress m + of_nat 0) ?hb) (nBaseAddress m + of_nat (2 + k))
          (sizeof_report t)
          = readBlock ?e1 (nBaseAddress m + of_nat (2 + k)) (sizeof_report t)"
  proof (rule readBlock_writeBlock_disjoint)
    show "0 + length ?hb \<le> 2 + k \<or> 2 + k + sizeof_report t \<le> 0" unfolding lhb by simp
    show "0 + length ?hb \<le> 65536" unfolding lhb by simp
    show "2 + k + sizeof_report t \<le> 65536" by (rule k)
  qed
  then have "readBlock (writeBlock ?e1 (nBaseAddress m) ?hb) ?slot (sizeof_report t)
          = readBlock ?e1 ?slot (sizeof_report t)"
    by (simp only: k(1)) simp
  also have "\<dots> = ?rb"
    using readBlock_writeBlock_same [of ?rb "eeprom m" ?slot] sizeof_report_le [of t]
    by (simp only: lrb)
  finally have slot: "readBlock (eeprom (fst (watchDogInterruptHandler t m pc))) ?slot (sizeof_report t) = ?rb"
    by (simp only: ee)
  have "readBlock (writeBlock ?e1 (nBaseAddress m) ?hb) (nBaseAddress m) (length ?hb) = ?hb"
    by (rule readBlock_writeBlock_same) simp
  then have hdr: "readBlock (eeprom (fst (watchDogInterruptHandler t m pc))) (nBaseAddress m) 2 = ?hb"
    by (simp only: ee lhb)
  show ?thesis
    using slot hdr by (simp only: sizeof_header_def)
qed

lemma loadHeader_fresh:
  "1 \<le>s M \<Longrightarrow> M \<le>s 255 \<Longrightarrow> loadHeader (fresh t M) = \<lparr>savedReports = 0, uNextReport = 0\<rparr>"
  by (simp add: loadHeader_def Let_def fresh_simps header_of_bytes_def sizeof_header_def readBlock_2
        erased_def sle_ucast word_sle_eq)

lemma upt_2_3: "[0..<2] = [0, 1]" "[0..<3] = [0, 1, 2]"
  by (simp_all add: upt_rec numeral_2_eq_2 numeral_3_eq_3)

lemma stacked_pc_bytes:
  "map (stacked_pc OtherAVR a) [0..<2] = [ucast (drop_bit 8 a), ucast a]"
  "map (stacked_pc ATmega2560 a) [0..<3] = [ucast (drop_bit 16 a), ucast (drop_bit 8 a), ucast a]"
  by (simp_all add: upt_2_3 stacked_pc_def)

theorem watchDogInterruptHandler_persists_witness:
  "length (auAddress (crashReport (fresh OtherAVR 3))) = PROGRAM_COUNTER_SIZE OtherAVR
   \<and> readBlock (eeprom (fst (watchDogInterruptHandler OtherAVR (fresh OtherAVR 3)
                                 (stacked_pc OtherAVR 0x100)))) 502 6
       = [1, 0, 0, 0, 0, 0]
   \<and> readBlock (eeprom (fst (watchDogInterruptHandler OtherAVR (fresh OtherAVR 3)
                                 (stacked_pc OtherAVR 0x100)))) 500 2
       = [1, 1]"
  using watchDogInterruptHandler_persists [of "fresh OtherAVR 3" OtherAVR "stacked_pc OtherAVR 0x100"]
  by (simp add: fresh_simps loadHeader_fresh word_sle_eq getAddressForReport_def sizeof_header_def
        sizeof_report_def word_sless_alt stacked_pc_bytes bytes_of_u32_def)

section \<open>Successive captures\<close>

lemma uint_unat_8: "uint (x :: 8 word) = int (unat x)"
  by simp

lemma unat_ucast_16_8:
  assumes "sint (Mw :: 16 word) = int M" "M < 256"
  shows "unat (ucast Mw :: 8 word) = M"
proof -
  have "uint (ucast Mw :: 8 word) = sint Mw"
    using assms by (intro ucast_16_8_small) simp_all
  then show ?thesis using assms(1) by (simp add: uint_unat_8 del: of_nat_unat)
qed

lemma loadHeader_nat:
  assumes M: "sint (nMaxEntries m) = int M"
    and raw: "readBlock (eeprom m) (nBaseAddress m) 2 = [s, n]"
  shows "unat (savedReports (loadHeader m)) = (if unat s = 255 then 0 else min (unat s) M)"
    and "unat (uNextReport (loadHeader m)) = (if M \<le> unat n then 0 else unat n)"
proof -
  have s255: "s = 255 \<longleftrightarrow> unat s = 255"
    by (simp add: word_unat_eq_iff)
  have clamp: "unat (ucast (nMaxEntries m) :: 8 word) = M" if "M < unat s"
    using unat_8_lt [of s] that by (intro unat_ucast_16_8 M) simp
  show "unat (savedReports (loadHeader m)) = (if unat s = 255 then 0 else min (unat s) M)"
    using clamp
    by (simp add: loadHeader_def Let_def header_of_bytes_def sizeof_header_def raw
          sle_ucast sless_ucast M s255 uint_unat_8 del: of_nat_unat)
  show "unat (uNextReport (loadHeader m)) = (if M \<le> unat n then 0 else unat n)"
    by (simp add: loadHeader_def Let_def header_of_bytes_def sizeof_header_def raw
          sle_ucast sless_ucast M uint_unat_8 del: of_nat_unat)
qed

lemma handler_header_bytes:
  "readBlock (eeprom (fst (watchDogInterruptHandler t m pc))) (nBaseAddress m) 2
     = (if nMaxEntries m \<le>s ucast (uNextReport (loadHeader m) + 1)
        then [savedReports (loadHeader m), 0]
        else [savedReports (loadHeader m) + 1, uNextReport (loadHeader m) + 1])"
proof -
  let ?hb = "if nMaxEntries m \<le>s ucast (uNextReport (loadHeader m) + 1)
             then [savedReports (loadHeader m), 0]
             else [savedReports (loadHeader m) + 1, uNextReport (loadHeader m) + 1]"
  have lhb: "length ?hb = 2" by simp
  have "readBlock (writeBlock e (nBaseAddress m) ?hb) (nBaseAddress m) (length ?hb) = ?hb" for e
    by (rule readBlock_writeBlock_same) simp
  then show ?thesis
    by (simp only: handler_eeprom lhb)
qed

lemma loadHeader_bounds:
  assumes "sint (nMaxEntries m) = int M" "1 \<le> M"
  shows "unat (uNextReport (loadHeader m)) < M" "unat (savedReports (loadHeader m)) \<le> M"
    "unat (savedReports (loadHeader m)) \<noteq> 255"
proof -
  have raw: "readBlock (eeprom m) (nBaseAddress m) 2
           = [eeprom m (nBaseAddress m), eeprom m (nBaseAddress m + 1)]"
    by (rule readBlock_2)
  show "unat (uNextReport (loadHeader m)) < M" "unat (savedReports (loadHeader m)) \<le> M"
    "unat (savedReports (loadHeader m)) \<noteq> 255"
    using assms(2) unat_8_lt [of "eeprom m (nBaseAddress m)"]
    by (auto simp add: loadHeader_nat [OF assms(1) raw])
qed

lemma unat_Suc_8: "unat (x :: 8 word) < 255 \<Longrightarrow> unat (x + 1) = unat x + 1"
  by (simp add: unat_word_ariths)

lemma capture_fields:
  "nBaseAddress (capture t m c) = nBaseAddress m"
  "nMaxEntries (capture t m c) = nMaxEntries m"
  "length (auAddress (crashReport m)) = PROGRAM_COUNTER_SIZE t \<Longrightarrow>
     length (auAddress (crashReport (capture t m c))) = PROGRAM_COUNTER_SIZE t"
  by (simp_all add: capture_def handler_fields setData_def length_memcpy)

lemma setData_fields [simp]:
  "nBaseAddress (setData m d) = nBaseAddress m"
  "nMaxEntries (setData m d) = nMaxEntries m"
  "eeprom (setData m d) = eeprom m"
  "userCrashHandler (setData m d) = userCrashHandler m"
  "crashReport (setData m d) = (crashReport m)\<lparr>uData := d\<rparr>"
  by (simp_all add: setData_def)

lemma loadHeader_setData [simp]: "loadHeader (setData m d) = loadHeader m"
  by (simp add: loadHeader_def setData_def Let_def)

lemma capture_header_bytes:
  "readBlock (eeprom (capture t m c)) (nBaseAddress m) 2
     = (if nMaxEntries m \<le>s ucast (uNextReport (loadHeader m) + 1)
        then [savedReports (loadHeader m), 0]
        else [savedReports (loadHeader m) + 1, uNextReport (loadHeader m) + 1])"
  using handler_header_bytes [of t "setData m (snd c)" "fst c"]
  by (simp add: capture_def)

lemma capture_raw_header:
  "readBlock (eeprom (capture t m c)) (nBaseAddress (capture t m c)) 2
     = (if nMaxEntries m \<le>s ucast (uNextReport (loadHeader m) + 1)
        then [savedReports (loadHeader m), 0]
        else [savedReports (loadHeader m) + 1, uNextReport (loadHeader m) + 1])"
  using capture_header_bytes [of t m c] by (simp add: capture_fields)

lemma capture_next:
  assumes M: "sint (nMaxEntries m) = int M" "1 \<le> M" "M \<le> 256"
  shows "unat (uNextReport (loadHeader (capture t m c)))
           = (unat (uNextReport (loadHeader m)) + 1) mod M"
proof -
  let ?m' = "capture t m c"
  let ?a = "uNextReport (loadHeader m)"
  let ?s = "savedReports (loadHeader m)"
  have a: "unat ?a < M" using loadHeader_bounds(1) [OF M(1,2)] .
  have M': "sint (nMaxEntries ?m') = int M" by (simp add: capture_fields M(1))
  note raw = capture_raw_header [of t m c]
  show ?thesis
  proof (cases "unat ?a = 255")
    case True
    with a M(3) have M256: "M = 256" by simp
    from True have a0: "?a + 1 = 0" by (simp add: word_unat_eq_iff unat_word_ariths)
    have "\<not> nMaxEntries m \<le>s ucast (?a + 1)"
      by (simp add: a0 word_sle_eq M(1) M256)
    with raw have "readBlock (eeprom ?m') (nBaseAddress ?m') 2 = [?s + 1, ?a + 1]" by simp
    from loadHeader_nat(2) [OF M' this] show ?thesis by (simp add: a0 True M256)
  next
    case False
    then have "unat ?a < 255" using unat_8_lt [of ?a] by simp
    then have a1: "unat (?a + 1) = unat ?a + 1" by (rule unat_Suc_8)
    have wrap: "nMaxEntries m \<le>s ucast (?a + 1) \<longleftrightarrow> unat ?a + 1 = M"
      using a by (auto simp add: sle_ucast M(1) uint_unat_8 a1 simp del: of_nat_unat)
    show ?thesis
    proof (cases "unat ?a + 1 = M")
      case True
      with raw wrap have "readBlock (eeprom ?m') (nBaseAddress ?m') 2 = [?s, 0]" by simp
      from loadHeader_nat(2) [OF M' this] True show ?thesis by simp
    next
      case False
      with raw wrap have "readBlock (eeprom ?m') (nBaseAddress ?m') 2 = [?s + 1, ?a + 1]" by simp
      from loadHeader_nat(2) [OF M' this] False a show ?thesis by (simp add: a1)
    qed
  qed
qed

lemma capture_saved:
  assumes M: "sint (nMaxEntries m) = int M" "1 \<le> M" "M \<le> 255"
  shows "unat (savedReports (loadHeader (capture t m c)))
           = (if unat (uNextReport (loadHeader m)) + 1 = M
              then unat (savedReports (loadHeader m))
              else if unat (savedReports (loadHeader m)) + 1 = 255 then 0
              else min (unat (savedReports (loadHeader m)) + 1) M)"
proof -
  let ?m' = "capture t m c"
  let ?a = "uNextReport (loadHeader m)"
  let ?s = "savedReports (loadHeader m)"
  have a: "unat ?a < M" and s: "unat ?s \<le> M" and s255: "unat ?s \<noteq> 255"
    using loadHeader_bounds [OF M(1,2)] by simp_all
  have a1: "unat (?a + 1) = unat ?a + 1" using a M(3) by (intro unat_Suc_8) simp
  have s1: "unat (?s + 1) = unat ?s + 1" using s s255 M(3) by (intro unat_Suc_8) simp
  have wrap: "nMaxEntries m \<le>s ucast (?a + 1) \<longleftrightarrow> unat ?a + 1 = M"
    using a by (auto simp add: sle_ucast M(1) uint_unat_8 a1 simp del: of_nat_unat)
  have M': "sint (nMaxEntries ?m') = int M" by (simp add: capture_fields M(1))
  note raw = capture_raw_header [of t m c]
  show ?thesis
  proof (cases "unat ?a + 1 = M")
    case True
    with raw wrap have "readBlock (eeprom ?m') (nBaseAddress ?m') 2 = [?s, 0]" by simp
    from loadHeader_nat(1) [OF M' this] True s s255 show ?thesis by simp
  next
    case False
    with raw wrap have "readBlock (eeprom ?m') (nBaseAddress ?m') 2 = [?s + 1, ?a + 1]" by simp
    from loadHeader_nat(1) [OF M' this] False show ?thesis by (simp add: s1)
  qed
qed

lemma capture_eeprom:
  assumes M: "sint (nMaxEntries m) = int M" "1 \<le> M"
    and wf: "length (auAddress (crashReport m)) = PROGRAM_COUNTER_SIZE t"
  shows "\<exists>hb. length hb = 2 \<and>
           eeprom (capture t m c) =
             writeBlock
               (writeBlock (eeprom m)
                  (nBaseAddress m
                     + of_nat (2 + unat (uNextReport (loadHeader m)) * sizeof_report t))
                  (map (fst c) [0..<PROGRAM_COUNTER_SIZE t] @ bytes_of_u32 (snd c)))
               (nBaseAddress m + of_nat 0) hb"
proof -
  let ?hb = "if nMaxEntries m \<le>s ucast (uNextReport (loadHeader m) + 1)
             then [savedReports (loadHeader m), 0]
             else [savedReports (loadHeader m) + 1, uNextReport (loadHeader m) + 1]"
  have a: "uint (uNextReport (loadHeader m)) < sint (nMaxEntries m)"
    using loadHeader_bounds(1) [OF M] by (simp add: M(1) uint_unat_8 del: of_nat_unat)
  have "eeprom (capture t m c) =
          writeBlock
            (writeBlock (eeprom m)
               (nBaseAddress m + of_nat (2 + unat (uNextReport (loadHeader m)) * sizeof_report t))
               (map (fst c) [0..<PROGRAM_COUNTER_SIZE t] @ bytes_of_u32 (snd c)))
            (nBaseAddress m + of_nat 0) ?hb"
  proof -
    have slot: "getAddressForReport t (setData m (snd c)) (ucast (uNextReport (loadHeader m)))
          = nBaseAddress m + of_nat (2 + unat (uNextReport (loadHeader m)) * sizeof_report t)"
      using a by (simp only: getAddressForReport_ucast setData_fields if_True)
    have mc: "memcpy (auAddress (crashReport m)) (fst c) (PROGRAM_COUNTER_SIZE t)
          = map (fst c) [0..<PROGRAM_COUNTER_SIZE t]"
      by (rule length_memcpy [OF wf])
    show ?thesis
      by (simp add: capture_def handler_eeprom slot mc)
  qed
  moreover have "length ?hb = 2" by simp
  ultimately show ?thesis by blast
qed

lemma capture_slot_written:
  assumes M: "sint (nMaxEntries m) = int M" "1 \<le> M"
    and wf: "length (auAddress (crashReport m)) = PROGRAM_COUNTER_SIZE t"
  shows "readBlock (eeprom (capture t m c))
           (nBaseAddress m + of_nat (2 + unat (uNextReport (loadHeader m)) * sizeof_report t))
           (sizeof_report t)
         = map (fst c) [0..<PROGRAM_COUNTER_SIZE t] @ bytes_of_u32 (snd c)"
proof -
  let ?rb = "map (fst c) [0..<PROGRAM_COUNTER_SIZE t] @ bytes_of_u32 (snd c)"
  let ?off = "2 + unat (uNextReport (loadHeader m)) * sizeof_report t"
  obtain hb where hb: "length hb = 2"
    and ee: "eeprom (capture t m c) =
      writeBlock (writeBlock (eeprom m) (nBaseAddress m + of_nat ?off) ?rb)
        (nBaseAddress m + of_nat 0) hb"
    using capture_eeprom [OF M wf] by blast
  have lrb: "length ?rb = sizeof_report t" by (simp add: sizeof_report_def)
  have bound: "?off + sizeof_report t \<le> 65536"
    using slot_offset_bound [of True "uNextReport (loadHeader m)" t] by simp
  have "readBlock (eeprom (capture t m c)) (nBaseAddress m + of_nat ?off) (sizeof_report t)
          = readBlock (writeBlock (eeprom m) (nBaseAddress m + of_nat ?off) ?rb)
              (nBaseAddress m + of_nat ?off) (sizeof_report t)"
    unfolding ee by (rule readBlock_writeBlock_disjoint) (use bound hb in simp_all)
  also have "\<dots> = ?rb"
    using readBlock_writeBlock_same [of ?rb "eeprom m" "nBaseAddress m + of_nat ?off"]
      sizeof_report_le [of t]
    by (simp only: lrb)
  finally show ?thesis .
qed

lemma capture_slot_other:
  assumes M: "sint (nMaxEntries m) = int M" "1 \<le> M"
    and wf: "length (auAddress (crashReport m)) = PROGRAM_COUNTER_SIZE t"
    and k: "k \<noteq> unat (uNextReport (loadHeader m))" "k < 256"
  shows "readBlock (eeprom (capture t m c))
           (nBaseAddress m + of_nat (2 + k * sizeof_report t)) (sizeof_report t)
         = readBlock (eeprom m)
           (nBaseAddress m + of_nat (2 + k * sizeof_report t)) (sizeof_report t)"
proof -
  let ?rb = "map (fst c) [0..<PROGRAM_COUNTER_SIZE t] @ bytes_of_u32 (snd c)"
  let ?a = "unat (uNextReport (loadHeader m))"
  let ?sz = "sizeof_report t"
  obtain hb where hb: "length hb = 2"
    and ee: "eeprom (capture t m c) =
      writeBlock (writeBlock (eeprom m) (nBaseAddress m + of_nat (2 + ?a * ?sz)) ?rb)
        (nBaseAddress m + of_nat 0) hb"
    using capture_eeprom [OF M wf] by blast
  have lrb: "length ?rb = ?sz" by (simp add: sizeof_report_def)
  have bound: "2 + ?a * ?sz + ?sz \<le> 65536"
    using slot_offset_bound [of True "uNextReport (loadHeader m)" t] by simp
  have "k * ?sz \<le> 255 * 7"
    using k(2) sizeof_report_le [of t] by (intro mult_mono) simp_all
  then have boundk: "2 + k * ?sz + ?sz \<le> 65536"
    using sizeof_report_le [of t] by simp
  have disj: "2 + ?a * ?sz + ?sz \<le> 2 + k * ?sz \<or> 2 + k * ?sz + ?sz \<le> 2 + ?a * ?sz"
  proof (cases "?a < k")
    case True
    then have "Suc ?a * ?sz \<le> k * ?sz" by (intro mult_le_mono1) simp
    then show ?thesis by simp
  next
    case False
    with k(1) have "Suc k * ?sz \<le> ?a * ?sz" by (intro mult_le_mono1) simp
    then show ?thesis by simp
  qed
  have "readBlock (eeprom (capture t m c)) (nBaseAddress m + of_nat (2 + k * ?sz)) ?sz
          = readBlock (writeBlock (eeprom m) (nBaseAddress m + of_nat (2 + ?a * ?sz)) ?rb)
              (nBaseAddress m + of_nat (2 + k * ?sz)) ?sz"
    unfolding ee by (rule readBlock_writeBlock_disjoint) (use boundk hb in simp_all)
  also have "\<dots> = readBlock (eeprom m) (nBaseAddress m + of_nat (2 + k * ?sz)) ?sz"
    by (rule readBlock_writeBlock_disjoint) (use disj bound boundk in \<open>simp_all only: lrb\<close>)
  finally show ?thesis .
qed

lemma captures_snoc: "captures t m (cs @ [c]) = capture t (captures t m cs) c"
  by (simp add: captures_def)

lemma captures_Nil: "captures t m [] = m"
  by (simp add: captures_def)

lemma saved_step:
  assumes "1 \<le> (M :: nat)"
  shows "(if n mod M + 1 = M
          then (if n < M then n else if n = M \<or> M = 1 then M - 1 else M)
          else min ((if n < M then n else if n = M \<or> M = 1 then M - 1 else M) + 1) M)
         = (if Suc n < M then Suc n else if Suc n = M \<or> M = 1 then M - 1 else M)"
proof (cases "n < M")
  case True
  then show ?thesis using assms by (auto simp: min_def)
next
  case False
  show ?thesis
  proof (cases "M = 1")
    case True
    then show ?thesis using False by simp
  next
    case M1: False
    show ?thesis
    proof (cases "n = M")
      case True
      then show ?thesis using M1 assms by (auto simp: min_def)
    next
      case nM: False
      then show ?thesis using False M1 assms by (auto simp: min_def)
    qed
  qed
qed

lemma captures_layout:
  assumes M: "sint (nMaxEntries m) = int M" "1 \<le> M" "M \<le> 256"
    and wf: "length (auAddress (crashReport m)) = PROGRAM_COUNTER_SIZE t"
    and empty: "loadHeader m = \<lparr>savedReports = 0, uNextReport = 0\<rparr>"
  shows "nBaseAddress (captures t m cs) = nBaseAddress m
       \<and> nMaxEntries (captures t m cs) = nMaxEntries m
       \<and> length (auAddress (crashReport (captures t m cs))) = PROGRAM_COUNTER_SIZE t
       \<and> unat (uNextReport (loadHeader (captures t m cs))) = length cs mod M
       \<and> (\<forall>i < length cs. length cs \<le> i + M \<longrightarrow>
            readBlock (eeprom (captures t m cs))
              (nBaseAddress m + of_nat (2 + (i mod M) * sizeof_report t)) (sizeof_report t)
            = map (fst (cs ! i)) [0..<PROGRAM_COUNTER_SIZE t] @ bytes_of_u32 (snd (cs ! i)))"
proof (induction cs rule: rev_induct)
  case Nil
  then show ?case using M(2) by (simp add: captures_Nil wf empty)
next
  case (snoc c cs)
  let ?m = "captures t m cs"
  let ?n = "length cs"
  let ?sz = "sizeof_report t"
  from snoc.IH have base: "nBaseAddress ?m = nBaseAddress m"
    and maxe: "nMaxEntries ?m = nMaxEntries m"
    and wf': "length (auAddress (crashReport ?m)) = PROGRAM_COUNTER_SIZE t"
    and nxt: "unat (uNextReport (loadHeader ?m)) = ?n mod M"
    and slots: "\<And>i. i < ?n \<Longrightarrow> ?n \<le> i + M \<Longrightarrow>
            readBlock (eeprom ?m)
              (nBaseAddress m + of_nat (2 + (i mod M) * ?sz)) ?sz
            = map (fst (cs ! i)) [0..<PROGRAM_COUNTER_SIZE t] @ bytes_of_u32 (snd (cs ! i))"
    by simp_all
  have M': "sint (nMaxEntries ?m) = int M" by (simp add: maxe M(1))
  have step: "captures t m (cs @ [c]) = capture t ?m c" by (rule captures_snoc)
  have 1: "nBaseAddress (capture t ?m c) = nBaseAddress m"
    and 2: "nMaxEntries (capture t ?m c) = nMaxEntries m"
    and 3: "length (auAddress (crashReport (capture t ?m c))) = PROGRAM_COUNTER_SIZE t"
    by (simp_all add: capture_fields base maxe wf')
  have 4: "unat (uNextReport (loadHeader (capture t ?m c))) = Suc ?n mod M"
    using M(2) by (simp add: capture_next [OF M' M(2,3)] nxt mod_Suc_eq)
  have 6: "readBlock (eeprom (capture t ?m c))
              (nBaseAddress m + of_nat (2 + (i mod M) * ?sz)) ?sz
            = map (fst ((cs @ [c]) ! i)) [0..<PROGRAM_COUNTER_SIZE t]
                @ bytes_of_u32 (snd ((cs @ [c]) ! i))"
    if i: "i < Suc ?n" "Suc ?n \<le> i + M" for i
  proof (cases "i = ?n")
    case True
    then show ?thesis
      using capture_slot_written [OF M' M(2) wf', of c] by (simp add: nxt base)
  next
    case False
    with i have lt: "i < ?n" by simp
    have "i mod M \<noteq> ?n mod M"
    proof
      assume eq: "i mod M = ?n mod M"
      have "(?n - i) mod M = 0"
        using lt eq by (metis mod_eq_dvd_iff_nat less_imp_le_nat dvd_imp_mod_0)
      moreover have "0 < ?n - i" "?n - i < M" using lt i by simp_all
      ultimately show False by simp
    qed
    moreover have "i mod M < 256"
    proof -
      have "i mod M < M" using M(2) by (intro mod_less_divisor) simp
      with M(3) show ?thesis by simp
    qed
    ultimately have "readBlock (eeprom (capture t ?m c))
              (nBaseAddress m + of_nat (2 + (i mod M) * ?sz)) ?sz
          = readBlock (eeprom ?m) (nBaseAddress m + of_nat (2 + (i mod M) * ?sz)) ?sz"
      using capture_slot_other [OF M' M(2) wf', of "i mod M" c] by (simp add: nxt base)
    also have "\<dots> = map (fst (cs ! i)) [0..<PROGRAM_COUNTER_SIZE t] @ bytes_of_u32 (snd (cs ! i))"
      using lt i by (intro slots) simp_all
    finally show ?thesis using lt by (simp add: nth_append)
  qed
  show ?case
    unfolding step using 1 2 3 4 6 by simp
qed

lemma saved_step_sentinel:
  assumes "1 \<le> (M :: nat)" "M \<le> 255" "M \<le> 253 \<or> n \<le> 254"
  shows "(if n mod M + 1 = M
          then (if n < M then n else if n = M \<or> M = 1 then M - 1 else M)
          else if (if n < M then n else if n = M \<or> M = 1 then M - 1 else M) + 1 = 255 then 0
          else min ((if n < M then n else if n = M \<or> M = 1 then M - 1 else M) + 1) M)
         = (if Suc n < M then Suc n else if Suc n = M \<or> M = 1 then M - 1 else M)"
proof (cases "n mod M + 1 = M")
  case True
  then show ?thesis using saved_step [OF assms(1), of n] by simp
next
  case False
  have "(if n < M then n else if n = M \<or> M = 1 then M - 1 else M) + 1 \<noteq> 255"
  proof (cases "n < M")
    case True
    with False have "n + 1 \<noteq> M" by simp
    with True assms(2) show ?thesis by simp
  next
    case nM: False
    with assms show ?thesis by auto
  qed
  then show ?thesis using saved_step [OF assms(1), of n] False by simp
qed

lemma captures_count:
  assumes M: "sint (nMaxEntries m) = int M" "1 \<le> M" "M \<le> 255"
    and wf: "length (auAddress (crashReport m)) = PROGRAM_COUNTER_SIZE t"
    and empty: "loadHeader m = \<lparr>savedReports = 0, uNextReport = 0\<rparr>"
  shows "M \<le> 253 \<or> length cs \<le> 255 \<Longrightarrow>
         unat (savedReports (loadHeader (captures t m cs)))
           = (if length cs < M then length cs
              else if length cs = M \<or> M = 1 then M - 1 else M)"
proof (induction cs rule: rev_induct)
  case Nil
  then show ?case using M(2) by (simp add: captures_Nil empty)
next
  case (snoc c cs)
  let ?m = "captures t m cs"
  let ?n = "length cs"
  have M256: "M \<le> 256" using M(3) by simp
  have lay: "nMaxEntries ?m = nMaxEntries m"
    "unat (uNextReport (loadHeader ?m)) = ?n mod M"
    using captures_layout [OF M(1,2) M256 wf empty, of cs] by simp_all
  have M': "sint (nMaxEntries ?m) = int M" by (simp add: lay(1) M(1))
  from snoc.prems have c: "M \<le> 253 \<or> ?n \<le> 254" by auto
  then have "M \<le> 253 \<or> ?n \<le> 255" by auto
  then have sav: "unat (savedReports (loadHeader ?m))
           = (if ?n < M then ?n else if ?n = M \<or> M = 1 then M - 1 else M)"
    by (rule snoc.IH)
  have "unat (savedReports (loadHeader (capture t ?m c)))
           = (if Suc ?n < M then Suc ?n else if Suc ?n = M \<or> M = 1 then M - 1 else M)"
    unfolding capture_saved [OF M' M(2,3)] lay(2) sav
    by (rule saved_step_sentinel [OF M(2,3) c])
  then show ?case by (simp add: captures_snoc)
qed

lemma captures_invariant:
  assumes M: "sint (nMaxEntries m) = int M" "1 \<le> M" "M \<le> 253"
    and wf: "length (auAddress (crashReport m)) = PROGRAM_COUNTER_SIZE t"
    and empty: "loadHeader m = \<lparr>savedReports = 0, uNextReport = 0\<rparr>"
  shows "nBaseAddress (captures t m cs) = nBaseAddress m
       \<and> nMaxEntries (captures t m cs) = nMaxEntries m
       \<and> length (auAddress (crashReport (captures t m cs))) = PROGRAM_COUNTER_SIZE t
       \<and> unat (uNextReport (loadHeader (captures t m cs))) = length cs mod M
       \<and> unat (savedReports (loadHeader (captures t m cs)))
           = (if length cs < M then length cs
              else if length cs = M \<or> M = 1 then M - 1 else M)
       \<and> (\<forall>i < length cs. length cs \<le> i + M \<longrightarrow>
            readBlock (eeprom (captures t m cs))
              (nBaseAddress m + of_nat (2 + (i mod M) * sizeof_report t)) (sizeof_report t)
            = map (fst (cs ! i)) [0..<PROGRAM_COUNTER_SIZE t] @ bytes_of_u32 (snd (cs ! i)))"
proof -
  have "M \<le> 256" "M \<le> 255" using M(3) by simp_all
  from captures_layout [OF M(1,2) this(1) wf empty, of cs]
    captures_count [OF M(1,2) this(2) wf empty, of cs] M(3)
  show ?thesis by simp
qed

section \<open>Runs of captures from an empty store\<close>

lemma sint_of_nat_16: "k < 32768 \<Longrightarrow> sint (of_nat k :: 16 word) = int k"
  by (simp add: sint_uint unsigned_of_nat take_bit_nat_eq_self signed_take_bit_int_eq_self)

lemma getAddressForReport_of_nat:
  assumes "sint (nMaxEntries m) = int M" "k < M"
  shows "getAddressForReport t m (of_nat k) = nBaseAddress m + of_nat (2 + k * sizeof_report t)"
proof -
  have "sint (nMaxEntries m) < 32768" using sint_lt [of "nMaxEntries m"] by simp
  with assms have k: "k < 32768" by simp
  have "(of_nat k :: 16 word) <s nMaxEntries m"
    using assms by (simp add: word_sless_alt sint_of_nat_16 [OF k])
  then show ?thesis
    by (simp add: getAddressForReport_def Let_def sizeof_header_def add.assoc)
qed

lemma empty_store_simps:
  "nBaseAddress (empty_store t M) = 500" "nMaxEntries (empty_store t M) = M"
  "userCrashHandler (empty_store t M) = False"
  "crashReport (empty_store t M) = \<lparr>auAddress = replicate (PROGRAM_COUNTER_SIZE t) 0, uData = 0\<rparr>"
  "eeprom (empty_store t M) = erased(500 := 0, 501 := 0)"
  by (simp_all add: empty_store_def saveHeader_def fresh_simps bytes_of_header_def)

lemma loadHeader_empty_store:
  "1 \<le>s M \<Longrightarrow> loadHeader (empty_store t M) = \<lparr>savedReports = 0, uNextReport = 0\<rparr>"
  by (simp add: loadHeader_def Let_def empty_store_simps header_of_bytes_def sizeof_header_def
        readBlock_2 sle_ucast word_sle_eq word_sless_alt)

lemma isFull_nat:
  assumes "sint (nMaxEntries m) = int M"
  shows "isFull m \<longleftrightarrow> M \<le> unat (savedReports (loadHeader m))"
  by (simp add: isFull_def Let_def sle_ucast assms uint_unat_8 del: of_nat_unat)

text \<open>
  C3.  Starting from an empty store with \<open>1 \<le> maxEntries \<le> 253\<close>, \<open>isFull\<close> holds after
  a run of captures exactly when more than \<open>maxEntries\<close> captures were taken and
  \<open>maxEntries\<close> is not 1.  After exactly \<open>maxEntries\<close> captures it is still false: the
  capture that wraps \<open>uNextReport\<close> does not count itself in \<open>savedReports\<close>.  The header
  file describes \<open>savedReports\<close> as the number of reports saved in the EEPROM and
  \<open>isFull\<close> as true when the maximum number of reports have been saved.
\<close>

theorem isFull_after_captures:
  assumes "sint (nMaxEntries m) = int M" "1 \<le> M" "M \<le> 253"
    and "length (auAddress (crashReport m)) = PROGRAM_COUNTER_SIZE t"
    and "loadHeader m = \<lparr>savedReports = 0, uNextReport = 0\<rparr>"
  shows "isFull (captures t m cs) \<longleftrightarrow> M < length cs \<and> M \<noteq> 1"
proof -
  have inv: "nMaxEntries (captures t m cs) = nMaxEntries m"
    "unat (savedReports (loadHeader (captures t m cs)))
       = (if length cs < M then length cs else if length cs = M \<or> M = 1 then M - 1 else M)"
    using captures_invariant [OF assms, of cs] by simp_all
  have "sint (nMaxEntries (captures t m cs)) = int M" by (simp add: inv(1) assms(1))
  then have "isFull (captures t m cs) \<longleftrightarrow>
      M \<le> (if length cs < M then length cs else if length cs = M \<or> M = 1 then M - 1 else M)"
    by (simp only: isFull_nat inv(2))
  also have "\<dots> \<longleftrightarrow> M < length cs \<and> M \<noteq> 1"
    using assms(2) by (cases "length cs < M"; cases "length cs = M"; cases "M = 1") simp_all
  finally show ?thesis .
qed

theorem isFull_after_captures_witness:
  "loadHeader (empty_store OtherAVR 3) = \<lparr>savedReports = 0, uNextReport = 0\<rparr>
   \<and> \<not> isFull (captures OtherAVR (empty_store OtherAVR 3)
         [(stacked_pc OtherAVR 0x100, 0), (stacked_pc OtherAVR 0x200, 0),
          (stacked_pc OtherAVR 0x300, 0)])"
  using isFull_after_captures [of "empty_store OtherAVR 3" 3 OtherAVR
      "[(stacked_pc OtherAVR 0x100, 0), (stacked_pc OtherAVR 0x200, 0),
          (stacked_pc OtherAVR 0x300, 0)]"]
  by (simp add: empty_store_simps loadHeader_empty_store word_sle_eq)

text \<open>
  C4 (as amended).  For \<open>1 \<le> maxEntries \<le> 256\<close> and \<open>k \<ge> 1\<close>, after \<open>maxEntries + k\<close>
  successive captures from an empty store the slots hold the most recent \<open>maxEntries\<close>
  captures, capture number \<open>i\<close> (counted from 0) in slot \<open>i mod maxEntries\<close>; and for
  \<open>2 \<le> maxEntries \<le> 253\<close> the header loads with \<open>savedReports = maxEntries\<close>.
\<close>

theorem captures_keep_most_recent:
  assumes "sint (nMaxEntries m) = int M" "1 \<le> M" "M \<le> 256"
    and "length (auAddress (crashReport m)) = PROGRAM_COUNTER_SIZE t"
    and "loadHeader m = \<lparr>savedReports = 0, uNextReport = 0\<rparr>"
    and "length cs = M + k" "1 \<le> k"
  shows "(2 \<le> M \<and> M \<le> 253 \<longrightarrow> unat (savedReports (loadHeader (captures t m cs))) = M)
       \<and> (\<forall>i. k \<le> i \<and> i < M + k \<longrightarrow>
            readBlock (eeprom (captures t m cs))
              (getAddressForReport t (captures t m cs) (of_nat (i mod M))) (sizeof_report t)
            = bytes_of_report
                \<lparr>auAddress = map (fst (cs ! i)) [0..<PROGRAM_COUNTER_SIZE t],
                 uData = snd (cs ! i)\<rparr>)"
proof -
  let ?m = "captures t m cs"
  have inv: "nBaseAddress ?m = nBaseAddress m" "nMaxEntries ?m = nMaxEntries m"
    "\<And>i. i < length cs \<Longrightarrow> length cs \<le> i + M \<Longrightarrow>
        readBlock (eeprom ?m)
          (nBaseAddress m + of_nat (2 + (i mod M) * sizeof_report t)) (sizeof_report t)
        = map (fst (cs ! i)) [0..<PROGRAM_COUNTER_SIZE t] @ bytes_of_u32 (snd (cs ! i))"
    using captures_layout [OF assms(1-5), of cs] by simp_all
  have M': "sint (nMaxEntries ?m) = int M" by (simp add: inv(2) assms(1))
  have saved: "unat (savedReports (loadHeader ?m)) = M" if "2 \<le> M" "M \<le> 253"
  proof -
    have "M \<le> 255" "M \<le> 253 \<or> length cs \<le> 255" using that by simp_all
    from captures_count [OF assms(1,2) this(1) assms(4,5) this(2)]
    show ?thesis using that assms(6,7) by simp
  qed
  have slot: "readBlock (eeprom ?m) (getAddressForReport t ?m (of_nat (i mod M))) (sizeof_report t)
            = bytes_of_report
                \<lparr>auAddress = map (fst (cs ! i)) [0..<PROGRAM_COUNTER_SIZE t],
                 uData = snd (cs ! i)\<rparr>"
    if "k \<le> i" "i < M + k" for i
  proof -
    have "i mod M < M" using assms(2) by (intro mod_less_divisor) simp
    from getAddressForReport_of_nat [OF M' this]
    have "getAddressForReport t ?m (of_nat (i mod M))
            = nBaseAddress m + of_nat (2 + (i mod M) * sizeof_report t)"
      by (simp add: inv(1))
    then show ?thesis
      using inv(3) [of i] that assms(6) by (simp add: bytes_of_report_def)
  qed
  show ?thesis using saved slot by blast
qed

lemma loadReport_raw:
  assumes "readBlock (eeprom m) (getAddressForReport t m i) (sizeof_report t)
             = bs @ bytes_of_u32 d"
    and "length bs = PROGRAM_COUNTER_SIZE t"
  shows "loadReport t m i =
           \<lparr>auAddress = bs[0 := bs ! (PROGRAM_COUNTER_SIZE t - 1), PROGRAM_COUNTER_SIZE t - 1 := bs ! 0],
            uData = d\<rparr>"
  using assms(2)
  by (simp add: loadReport_def Let_def assms(1) report_of_bytes_def u32_roundtrip nth_append)

lemma u32_of_low_bytes:
  assumes "(a :: 32 word) < 0x10000"
  shows "u32_of_bytes [ucast a, ucast (drop_bit 8 a), 0, 0] = a"
    and "u32_of_bytes [ucast a, ucast (drop_bit 8 a), ucast (drop_bit 16 a), 0] = a"
proof -
  have tb: "take_bit 16 a = a"
    using less_mask_eq [of a 16] assms by (simp add: take_bit_eq_mask)
  have hi: "\<not> bit a n" if "16 \<le> n" for n
    using bit_take_bit_iff [of 16 a n] that by (simp add: tb)
  show "u32_of_bytes [ucast a, ucast (drop_bit 8 a), 0, 0] = a"
  proof (rule bit_eqI)
    fix n :: nat
    consider "n < 8" | "8 \<le> n" "n < 16" | "16 \<le> n" by linarith
    then show "bit (u32_of_bytes [ucast a, ucast (drop_bit 8 a), 0, 0]) n = bit a n"
      using hi [of n] by cases (auto simp add: bit_simps)
  qed
  show "u32_of_bytes [ucast a, ucast (drop_bit 8 a), ucast (drop_bit 16 a), 0] = a"
  proof (rule bit_eqI)
    fix n :: nat
    consider "n < 8" | "8 \<le> n" "n < 16" | "16 \<le> n" by linarith
    then show "bit (u32_of_bytes [ucast a, ucast (drop_bit 8 a), ucast (drop_bit 16 a), 0]) n = bit a n"
      using hi [of n] hi [of "16 + (n - 16)"] by cases (auto simp add: bit_simps)
  qed
qed

lemma loadReport_of_slot_bytes:
  assumes "readBlock (eeprom m) (getAddressForReport t m i) (sizeof_report t)
             = map (stacked_pc t a) [0..<PROGRAM_COUNTER_SIZE t] @ bytes_of_u32 d"
    and "a < 0x10000"
  shows "location_value t (loadReport t m i) = a \<and> uData (loadReport t m i) = d"
proof -
  have "loadReport t m i =
           \<lparr>auAddress = (map (stacked_pc t a) [0..<PROGRAM_COUNTER_SIZE t])
              [0 := map (stacked_pc t a) [0..<PROGRAM_COUNTER_SIZE t] ! (PROGRAM_COUNTER_SIZE t - 1),
               PROGRAM_COUNTER_SIZE t - 1 := map (stacked_pc t a) [0..<PROGRAM_COUNTER_SIZE t] ! 0],
            uData = d\<rparr>"
    by (rule loadReport_raw [OF assms(1)]) simp
  then show ?thesis
    using u32_of_low_bytes [OF assms(2)]
    by (cases t)
      (simp_all add: stacked_pc_def location_value_def memcpy_def upt_2_3)
qed

lemma four_captures_header_bytes:
  assumes "nMaxEntries m = 3"
    and "length (auAddress (crashReport m)) = PROGRAM_COUNTER_SIZE t"
    and "loadHeader m = \<lparr>savedReports = 0, uNextReport = 0\<rparr>"
  shows "readBlock (eeprom (captures t m [c1, c2, c3, c4])) (nBaseAddress m) sizeof_header = [3, 1]"
proof -
  let ?m3 = "captures t m [c1, c2, c3]"
  have M: "sint (nMaxEntries m) = int 3" by (simp add: assms(1))
  note inv = captures_invariant [OF M _ _ assms(2,3), of "[c1, c2, c3]"]
  have base: "nBaseAddress ?m3 = nBaseAddress m" and maxe: "nMaxEntries ?m3 = 3"
    and nxt: "unat (uNextReport (loadHeader ?m3)) = 0"
    and sav: "unat (savedReports (loadHeader ?m3)) = 2"
    using inv by (simp_all add: assms(1))
  have h: "uNextReport (loadHeader ?m3) = 0" "savedReports (loadHeader ?m3) = 2"
    using nxt sav by (simp_all add: word_unat_eq_iff)
  have "captures t m [c1, c2, c3, c4] = capture t ?m3 c4"
    using captures_snoc [of t m "[c1, c2, c3]" c4] by simp
  then show ?thesis
    using capture_header_bytes [of t ?m3 c4]
    by (simp add: base maxe h sizeof_header_def word_sle_eq)
qed

text \<open>
  C5.  With \<open>maxEntries = 3\<close> and an empty store, captures at the locations \<open>0x100\<close>,
  \<open>0x200\<close>, \<open>0x300\<close> and \<open>0x400\<close> leave the header bytes 3 and 1, which load as
  \<open>savedReports = 3\<close> and \<open>uNextReport = 1\<close>; slot 0 holds the report of \<open>0x400\<close> (the
  fourth capture has replaced the first), slot 1 that of \<open>0x200\<close> and slot 2 that of
  \<open>0x300\<close>, each with the user data set before its capture.
\<close>

theorem four_captures_scenario:
  assumes "nMaxEntries m = 3"
    and "length (auAddress (crashReport m)) = PROGRAM_COUNTER_SIZE t"
    and "loadHeader m = \<lparr>savedReports = 0, uNextReport = 0\<rparr>"
  shows "readBlock (eeprom (captures t m
           [(stacked_pc t 0x100, d1), (stacked_pc t 0x200, d2),
            (stacked_pc t 0x300, d3), (stacked_pc t 0x400, d4)]))
           (nBaseAddress m) sizeof_header = [3, 1]
       \<and> savedReports (loadHeader (captures t m
           [(stacked_pc t 0x100, d1), (stacked_pc t 0x200, d2),
            (stacked_pc t 0x300, d3), (stacked_pc t 0x400, d4)])) = 3
       \<and> uNextReport (loadHeader (captures t m
           [(stacked_pc t 0x100, d1), (stacked_pc t 0x200, d2),
            (stacked_pc t 0x300, d3), (stacked_pc t 0x400, d4)])) = 1
       \<and> location_value t (loadReport t (captures t m
           [(stacked_pc t 0x100, d1), (stacked_pc t 0x200, d2),
            (stacked_pc t 0x300, d3), (stacked_pc t 0x400, d4)]) 0) = 0x400
       \<and> uData (loadReport t (captures t m
           [(stacked_pc t 0x100, d1), (stacked_pc t 0x200, d2),
            (stacked_pc t 0x300, d3), (stacked_pc t 0x400, d4)]) 0) = d4
       \<and> location_value t (loadReport t (captures t m
           [(stacked_pc t 0x100, d1), (stacked_pc t 0x200, d2),
            (stacked_pc t 0x300, d3), (stacked_pc t 0x400, d4)]) 1) = 0x200
       \<and> uData (loadReport t (captures t m
           [(stacked_pc t 0x100, d1), (stacked_pc t 0x200, d2),
            (stacked_pc t 0x300, d3), (stacked_pc t 0x400, d4)]) 1) = d2
       \<and> location_value t (loadReport t (captures t m
           [(stacked_pc t 0x100, d1), (stacked_pc t 0x200, d2),
            (stacked_pc t 0x300, d3), (stacked_pc t 0x400, d4)]) 2) = 0x300
       \<and> uData (loadReport t (captures t m
           [(stacked_pc t 0x100, d1), (stacked_pc t 0x200, d2),
            (stacked_pc t 0x300, d3), (stacked_pc t 0x400, d4)]) 2) = d3"
proof -
  let ?cs = "[(stacked_pc t 0x100, d1), (stacked_pc t 0x200, d2),
              (stacked_pc t 0x300, d3), (stacked_pc t 0x400, d4)]"
  let ?m = "captures t m ?cs"
  let ?sz = "sizeof_report t"
  have M: "sint (nMaxEntries m) = int 3" by (simp add: assms(1))
  note inv = captures_invariant [OF M _ _ assms(2,3), of ?cs]
  have base: "nBaseAddress ?m = nBaseAddress m" and maxe: "nMaxEntries ?m = nMaxEntries m"
    and nxt: "unat (uNextReport (loadHeader ?m)) = 1"
    and sav: "unat (savedReports (loadHeader ?m)) = 3"
    using inv by simp_all
  have slots: "readBlock (eeprom ?m) (nBaseAddress m + of_nat (2 + (i mod 3) * ?sz)) ?sz
            = map (fst (?cs ! i)) [0..<PROGRAM_COUNTER_SIZE t] @ bytes_of_u32 (snd (?cs ! i))"
    if "i < 4" "1 \<le> i" for i
    using inv that by simp
  have M': "sint (nMaxEntries ?m) = int 3" by (simp add: maxe M)
  have addr: "getAddressForReport t ?m (of_nat j) = nBaseAddress m + of_nat (2 + j * ?sz)"
    if "j < 3" for j
    using getAddressForReport_of_nat [OF M' that] by (simp add: base)
  have s0: "readBlock (eeprom ?m) (getAddressForReport t ?m 0) ?sz
              = map (stacked_pc t 0x400) [0..<PROGRAM_COUNTER_SIZE t] @ bytes_of_u32 d4"
    using slots [of 3] addr [of 0] by simp
  have s1: "readBlock (eeprom ?m) (getAddressForReport t ?m 1) ?sz
              = map (stacked_pc t 0x200) [0..<PROGRAM_COUNTER_SIZE t] @ bytes_of_u32 d2"
    using slots [of 1] addr [of 1] by simp
  have s2: "readBlock (eeprom ?m) (getAddressForReport t ?m 2) ?sz
              = map (stacked_pc t 0x300) [0..<PROGRAM_COUNTER_SIZE t] @ bytes_of_u32 d3"
    using slots [of 2] addr [of 2] by simp
  have h1: "savedReports (loadHeader ?m) = 3" using sav by (simp add: word_unat_eq_iff)
  have h2: "uNextReport (loadHeader ?m) = 1" using nxt by (simp add: word_unat_eq_iff)
  show ?thesis
    using h1 h2 loadReport_of_slot_bytes [OF s0] loadReport_of_slot_bytes [OF s1]
      loadReport_of_slot_bytes [OF s2] four_captures_header_bytes [OF assms]
    by simp
qed

theorem four_captures_scenario_witness:
  "nMaxEntries (empty_store OtherAVR 3) = 3
   \<and> loadHeader (empty_store OtherAVR 3) = \<lparr>savedReports = 0, uNextReport = 0\<rparr>
   \<and> readBlock (eeprom (captures OtherAVR (empty_store OtherAVR 3)
           [(stacked_pc OtherAVR 0x100, 1), (stacked_pc OtherAVR 0x200, 2),
            (stacked_pc OtherAVR 0x300, 3), (stacked_pc OtherAVR 0x400, 4)])) 500 2 = [3, 1]
   \<and> loadHeader (captures OtherAVR (empty_store OtherAVR 3)
           [(stacked_pc OtherAVR 0x100, 1), (stacked_pc OtherAVR 0x200, 2),
            (stacked_pc OtherAVR 0x300, 3), (stacked_pc OtherAVR 0x400, 4)])
       = \<lparr>savedReports = 3, uNextReport = 1\<rparr>
   \<and> location_value OtherAVR (loadReport OtherAVR (captures OtherAVR (empty_store OtherAVR 3)
           [(stacked_pc OtherAVR 0x100, 1), (stacked_pc OtherAVR 0x200, 2),
            (stacked_pc OtherAVR 0x300, 3), (stacked_pc OtherAVR 0x400, 4)]) 0) = 0x400"
proof -
  have "loadHeader (empty_store OtherAVR 3) = \<lparr>savedReports = 0, uNextReport = 0\<rparr>"
    by (simp add: loadHeader_empty_store word_sle_eq)
  from four_captures_scenario [OF _ _ this, of OtherAVR 1 2 3 4] this
  show ?thesis
    by (simp add: empty_store_simps CCrashMonitorHeader.equality sizeof_header_def)
qed

theorem captures_keep_most_recent_witness:
  "sint (nMaxEntries (empty_store OtherAVR 2)) = int 2
   \<and> loadHeader (empty_store OtherAVR 2) = \<lparr>savedReports = 0, uNextReport = 0\<rparr>
   \<and> unat (savedReports (loadHeader (captures OtherAVR (empty_store OtherAVR 2)
         [(stacked_pc OtherAVR 0x100, 7), (stacked_pc OtherAVR 0x200, 8),
          (stacked_pc OtherAVR 0x300, 9)]))) = 2
   \<and> readBlock (eeprom (captures OtherAVR (empty_store OtherAVR 2)
         [(stacked_pc OtherAVR 0x100, 7), (stacked_pc OtherAVR 0x200, 8),
          (stacked_pc OtherAVR 0x300, 9)]))
        (getAddressForReport OtherAVR (captures OtherAVR (empty_store OtherAVR 2)
         [(stacked_pc OtherAVR 0x100, 7), (stacked_pc OtherAVR 0x200, 8),
          (stacked_pc OtherAVR 0x300, 9)]) 0) 6
       = [3, 0, 9, 0, 0, 0]
   \<and> readBlock (eeprom (captures OtherAVR (empty_store OtherAVR 2)
         [(stacked_pc OtherAVR 0x100, 7), (stacked_pc OtherAVR 0x200, 8),
          (stacked_pc OtherAVR 0x300, 9)]))
        (getAddressForReport OtherAVR (captures OtherAVR (empty_store OtherAVR 2)
         [(stacked_pc OtherAVR 0x100, 7), (stacked_pc OtherAVR 0x200, 8),
          (stacked_pc OtherAVR 0x300, 9)]) 1) 6
       = [2, 0, 8, 0, 0, 0]"
proof -
  let ?cs = "[(stacked_pc OtherAVR 0x100, 7), (stacked_pc OtherAVR 0x200, 8),
              (stacked_pc OtherAVR 0x300, 9 :: uint32_t)]"
  have e: "loadHeader (empty_store OtherAVR 2) = \<lparr>savedReports = 0, uNextReport = 0\<rparr>"
    by (simp add: loadHeader_empty_store word_sle_eq)
  have M: "sint (nMaxEntries (empty_store OtherAVR 2)) = int 2"
    by (simp add: empty_store_simps)
  have wf: "length (auAddress (crashReport (empty_store OtherAVR 2))) = PROGRAM_COUNTER_SIZE OtherAVR"
    by (simp add: empty_store_simps)
  note th = captures_keep_most_recent [OF M _ _ wf e, of ?cs 1]
  have a: "unat (savedReports (loadHeader (captures OtherAVR (empty_store OtherAVR 2) ?cs))) = 2"
    using th by simp
  have "\<forall>i. 1 \<le> i \<and> i < 2 + 1 \<longrightarrow>
            readBlock (eeprom (captures OtherAVR (empty_store OtherAVR 2) ?cs))
              (getAddressForReport OtherAVR (captures OtherAVR (empty_store OtherAVR 2) ?cs)
                 (of_nat (i mod 2))) (sizeof_report OtherAVR)
            = bytes_of_report
                \<lparr>auAddress = map (fst (?cs ! i)) [0..<PROGRAM_COUNTER_SIZE OtherAVR],
                 uData = snd (?cs ! i)\<rparr>"
    using th by simp
  from this [rule_format, of 2] this [rule_format, of 1] a e M
  show ?thesis
    by (simp add: sizeof_report_def stacked_pc_bytes bytes_of_report_def bytes_of_u32_def)
qed

theorem savedReports_falls_back_to_zero:
  "loadHeader (empty_store ATmega2560 254) = \<lparr>savedReports = 0, uNextReport = 0\<rparr>
   \<and> sint (nMaxEntries (empty_store ATmega2560 254)) = 254
   \<and> uint (savedReports (loadHeader (captures ATmega2560 (empty_store ATmega2560 254)
          (replicate 256 (stacked_pc ATmega2560 0x100, 0))))) = 0"
proof -
  let ?m = "empty_store ATmega2560 254"
  let ?c = "(stacked_pc ATmega2560 0x100, 0 :: uint32_t)"
  let ?m255 = "captures ATmega2560 ?m (replicate 255 ?c)"
  have e: "loadHeader ?m = \<lparr>savedReports = 0, uNextReport = 0\<rparr>"
    by (simp add: loadHeader_empty_store word_sle_eq)
  have M: "sint (nMaxEntries ?m) = int 254" by (simp add: empty_store_simps)
  have wf: "length (auAddress (crashReport ?m)) = PROGRAM_COUNTER_SIZE ATmega2560"
    by (simp add: empty_store_simps)
  have lay: "nMaxEntries ?m255 = nMaxEntries ?m"
    "unat (uNextReport (loadHeader ?m255)) = 1"
    using captures_layout [OF M _ _ wf e, of "replicate 255 ?c"] by simp_all
  have cnt: "unat (savedReports (loadHeader ?m255)) = 254"
    using captures_count [OF M _ _ wf e, of "replicate 255 ?c"] by simp
  have M': "sint (nMaxEntries ?m255) = int 254" by (simp add: lay(1) M)
  have "replicate (Suc 255) ?c = replicate 255 ?c @ [?c]"
    by (simp only: replicate_Suc replicate_append_same)
  moreover have "Suc 255 = 256" by simp
  ultimately have "replicate 256 ?c = replicate 255 ?c @ [?c]"
    by (simp only:)
  then have "captures ATmega2560 ?m (replicate 256 ?c) = capture ATmega2560 ?m255 ?c"
    by (simp only: captures_snoc)
  moreover have "unat (savedReports (loadHeader (capture ATmega2560 ?m255 ?c))) = 0"
    using capture_saved [OF M', of ATmega2560 ?c] by (simp add: lay(2) cnt)
  ultimately show ?thesis
    using e M by (simp add: uint_unat_8 del: of_nat_unat)
qed

section \<open>Clearing the store\<close>

lemma ucast_32_16_Suc: "(ucast (u + 1 :: 32 word) :: 16 word) = ucast u + 1"
proof -
  have "take_bit LENGTH(16) ((unat u + 1) mod 2 ^ 32) = take_bit LENGTH(16) (unat u + 1)"
    by (simp add: take_bit_eq_mod mod_mod_cancel)
  then have "(of_nat ((unat u + 1) mod 2 ^ 32) :: 16 word) = of_nat (unat u + 1)"
    by (simp only: word_of_nat_eq_iff)
  moreover have "unat (u + 1) = (unat u + 1) mod 2 ^ 32"
    by (simp add: unat_word_ariths)
  moreover have "(ucast (u + 1) :: 16 word) = of_nat (unat (u + 1))" by simp
  moreover have "(of_nat (unat u + 1) :: 16 word) = ucast u + 1" by simp
  ultimately show ?thesis by (simp only:)
qed

lemma zero_bytes_writeBlock:
  "zero_bytes e uAddress sz = writeBlock e (ucast uAddress) (replicate sz 0)"
  by (induction sz arbitrary: e uAddress) (simp_all add: ucast_32_16_Suc)

lemma clear_loop_step:
  "uReport < saved \<Longrightarrow>
     clear_loop t m saved uReport = clear_loop t (clear_report t m uReport) saved (uReport + 1)"
  by (subst clear_loop.simps) (simp only: if_True)

lemma clear_loop_done: "\<not> uReport < saved \<Longrightarrow> clear_loop t m saved uReport = m"
  by (subst clear_loop.simps) (simp only: if_False)

lemma clear_loop_foldl:
  "clear_loop t m saved uReport =
     m\<lparr>eeprom :=
         foldl (\<lambda>e i. writeBlock e
                  (ucast (location_value t (loadReport t (m\<lparr>eeprom := e\<rparr>) (of_nat i))))
                  (replicate (sizeof_report t) 0))
           (eeprom m) [unat uReport..<unat saved]\<rparr>"
proof (induction t m saved uReport rule: clear_loop.induct)
  case (1 t m saved uReport)
  show ?case
  proof (cases "uReport < saved")
    case True
    then have lt: "unat uReport < unat saved" by (simp add: word_less_nat_alt)
    have suc: "unat (uReport + 1) = Suc (unat uReport)"
      using lt unat_8_lt [of saved] by (simp add: unat_word_ariths)
    have upt: "[unat uReport..<unat saved] = unat uReport # [Suc (unat uReport)..<unat saved]"
      using lt by (rule upt_conv_Cons)
    note clear_loop_step [OF True, of t m]
    also note "1.IH" [OF True]
    finally have step: "clear_loop t m saved uReport =
      clear_report t m uReport
      \<lparr>eeprom :=
         foldl
          (\<lambda>e i. writeBlock e
                  (ucast (location_value t
                     (loadReport t (clear_report t m uReport\<lparr>eeprom := e\<rparr>) (of_nat i))))
                  (replicate (sizeof_report t) 0))
          (eeprom (clear_report t m uReport)) [unat (uReport + 1)..<unat saved]\<rparr>" .
    have upd: "clear_report t m uReport\<lparr>eeprom := e\<rparr> = m\<lparr>eeprom := e\<rparr>" for e
      by (simp add: clear_report_def Let_def)
    have ee: "eeprom (clear_report t m uReport) =
        writeBlock (eeprom m)
          (ucast (location_value t
             (loadReport t (m\<lparr>eeprom := eeprom m\<rparr>) (of_nat (unat uReport)))))
          (replicate (sizeof_report t) 0)"
      by (simp add: clear_report_def Let_def zero_bytes_writeBlock)
    show ?thesis
      by (simp only: step upd ee suc upt foldl_Cons)
  next
    case False
    then have "unat saved \<le> unat uReport" by (simp add: word_less_nat_alt)
    then have e: "[unat uReport..<unat saved] = []" by simp
    show ?thesis by (simp only: clear_loop_done [OF False] e foldl_Nil) simp
  qed
qed

lemma header_reset:
  "h\<lparr>savedReports := 0, uNextReport := 0\<rparr> = \<lparr>savedReports = 0, uNextReport = 0\<rparr>"
  by (cases h) simp

lemma clear_eeprom:
  "clear t m =
     m\<lparr>eeprom :=
         writeBlock
           (foldl (\<lambda>e i. writeBlock e
                     (ucast (location_value t (loadReport t (m\<lparr>eeprom := e\<rparr>) (of_nat i))))
                     (replicate (sizeof_report t) 0))
              (eeprom m) [0..<unat (savedReports (loadHeader m))])
           (nBaseAddress m) [0, 0]\<rparr>"
proof (cases "savedReports (loadHeader m) = 0")
  case True
  then show ?thesis
    by (simp add: clear_def Let_def saveHeader_def bytes_of_header_def del: clear_loop.simps)
next
  case False
  then show ?thesis
    by (simp add: clear_def Let_def saveHeader_def bytes_of_header_def clear_loop_foldl
          del: clear_loop.simps)
qed

lemma dump_loop_none: "dump_loop t m 0 uReport = []"
  by (subst dump_loop.simps) (simp del: dump_loop.simps)

lemma loadReport_OtherAVR:
  "loadReport OtherAVR m i =
     \<lparr>auAddress = [eeprom m (getAddressForReport OtherAVR m i + 1),
                   eeprom m (getAddressForReport OtherAVR m i)],
      uData = u32_of_bytes
                [eeprom m (getAddressForReport OtherAVR m i + 2),
                 eeprom m (getAddressForReport OtherAVR m i + 3),
                 eeprom m (getAddressForReport OtherAVR m i + 4),
                 eeprom m (getAddressForReport OtherAVR m i + 5)]\<rparr>"
  by (simp add: loadReport_def Let_def report_of_bytes_def sizeof_report_def readBlock_6)

text \<open>
  C6.  For every report index below the \<open>savedReports\<close> of the loaded header, \<open>clear\<close>
  writes \<open>sizeof (report)\<close> zero bytes starting at the address recovered from the
  location field of that report, taken as an EEPROM address, and not at the address of
  the slot of the report.  It then stores a header with \<open>savedReports = 0\<close> and
  \<open>uNextReport = 0\<close>, after which \<open>isFull\<close> is false and \<open>dump\<close> with \<open>onlyIfPresent\<close>
  prints nothing.  The capacity is a valid one, \<open>maxEntries \<ge> 1\<close>.
\<close>

theorem clear_effect:
  assumes "1 \<le>s nMaxEntries m"
  shows "eeprom (clear t m) =
           writeBlock
             (foldl (\<lambda>e i. writeBlock e
                       (ucast (location_value t (loadReport t (m\<lparr>eeprom := e\<rparr>) (of_nat i))))
                       (replicate (sizeof_report t) 0))
                (eeprom m) [0..<unat (savedReports (loadHeader m))])
             (nBaseAddress m) [0, 0]
       \<and> readBlock (eeprom (clear t m)) (nBaseAddress m) sizeof_header = [0, 0]
       \<and> loadHeader (clear t m) = \<lparr>savedReports = 0, uNextReport = 0\<rparr>
       \<and> \<not> isFull (clear t m)
       \<and> dump t (clear t m) True = []"
proof -
  let ?e = "foldl (\<lambda>e i. writeBlock e
                       (ucast (location_value t (loadReport t (m\<lparr>eeprom := e\<rparr>) (of_nat i))))
                       (replicate (sizeof_report t) 0))
                (eeprom m) [0..<unat (savedReports (loadHeader m))]"
  have c: "clear t m = m\<lparr>eeprom := writeBlock ?e (nBaseAddress m) [0, 0]\<rparr>"
    by (rule clear_eeprom)
  have raw: "readBlock (eeprom (clear t m)) (nBaseAddress (clear t m)) 2 = [0, 0]"
    by (simp add: c readBlock_2)
  have M: "1 \<le> sint (nMaxEntries (clear t m))"
    using assms by (simp add: c word_sle_eq)
  have h: "loadHeader (clear t m) = \<lparr>savedReports = 0, uNextReport = 0\<rparr>"
    using M
    by (simp add: loadHeader_def Let_def sizeof_header_def raw header_of_bytes_def
          sle_ucast sless_ucast word_sless_alt)
  have d: "dump t (clear t m) True = []"
    by (simp add: dump_def h del: dump_loop.simps)
  have f: "\<not> isFull (clear t m)"
    using M by (simp add: isFull_def h sle_ucast)
  have "eeprom (clear t m) = writeBlock ?e (nBaseAddress m) [0, 0]"
    by (simp add: c)
  moreover have "readBlock (eeprom (clear t m)) (nBaseAddress m) sizeof_header = [0, 0]"
    using raw by (simp add: c sizeof_header_def)
  ultimately show ?thesis using h d f by blast
qed

theorem clear_effect_witness:
  "1 \<le>s nMaxEntries (capture OtherAVR (empty_store OtherAVR 3) (stacked_pc OtherAVR 0x400, 7))
   \<and> loadHeader (capture OtherAVR (empty_store OtherAVR 3) (stacked_pc OtherAVR 0x400, 7))
       = \<lparr>savedReports = 1, uNextReport = 1\<rparr>
   \<and> readBlock (eeprom (capture OtherAVR (empty_store OtherAVR 3) (stacked_pc OtherAVR 0x400, 7)))
        0x400 6 = [0xff, 0xff, 0xff, 0xff, 0xff, 0xff]
   \<and> readBlock (eeprom (clear OtherAVR
          (capture OtherAVR (empty_store OtherAVR 3) (stacked_pc OtherAVR 0x400, 7))))
        0x400 6 = [0, 0, 0, 0, 0, 0]
   \<and> readBlock (eeprom (clear OtherAVR
          (capture OtherAVR (empty_store OtherAVR 3) (stacked_pc OtherAVR 0x400, 7))))
        (getAddressForReport OtherAVR
          (capture OtherAVR (empty_store OtherAVR 3) (stacked_pc OtherAVR 0x400, 7)) 0) 6
       = [4, 0, 7, 0, 0, 0]
   \<and> loadHeader (clear OtherAVR
          (capture OtherAVR (empty_store OtherAVR 3) (stacked_pc OtherAVR 0x400, 7)))
       = \<lparr>savedReports = 0, uNextReport = 0\<rparr>
   \<and> dump OtherAVR (clear OtherAVR
          (capture OtherAVR (empty_store OtherAVR 3) (stacked_pc OtherAVR 0x400, 7))) True = []
   \<and> \<not> isFull (clear OtherAVR
          (capture OtherAVR (empty_store OtherAVR 3) (stacked_pc OtherAVR 0x400, 7)))"
proof -
  let ?m = "capture OtherAVR (empty_store OtherAVR 3) (stacked_pc OtherAVR 0x400, 7)"
  have e: "eeprom ?m = erased(500 := 1, 501 := 1, 502 := 4, 503 := 0, 504 := 7, 505 := 0,
                              506 := 0, 507 := 0)"
    by (rule ext)
       (simp add: capture_def handler_eeprom loadHeader_empty_store word_sle_eq empty_store_simps
          getAddressForReport_def sizeof_header_def sizeof_report_def word_sless_alt
          memcpy_def stacked_pc_bytes bytes_of_u32_def)
  have f: "nMaxEntries ?m = 3" "nBaseAddress ?m = 500"
    by (simp_all add: capture_fields empty_store_simps)
  have h: "loadHeader ?m = \<lparr>savedReports = 1, uNextReport = 1\<rparr>"
    by (simp add: loadHeader_def Let_def f e sizeof_header_def readBlock_2 header_of_bytes_def
          word_sle_eq word_sless_alt)
  have a: "getAddressForReport OtherAVR ?m 0 = 502"
    by (simp add: getAddressForReport_def f sizeof_header_def word_sless_alt)
  have l: "location_value OtherAVR (loadReport OtherAVR
             (?m\<lparr>eeprom := erased(500 := 1, 501 := 1, 502 := 4, 503 := 0, 504 := 7, 505 := 0,
                              506 := 0, 507 := 0)\<rparr>) 0) = 0x400"
    by (simp add: loadReport_OtherAVR a location_value_def memcpy_def upt_2_3)
  have six: "replicate (sizeof_report OtherAVR) (0 :: uint8_t) = [0, 0, 0, 0, 0, 0]"
    by (simp add: sizeof_report_def eval_nat_numeral)
  have M: "1 \<le>s nMaxEntries ?m"
    by (simp add: f word_sle_eq)
  note th = clear_effect [OF M, of OtherAVR]
  have c: "eeprom (clear OtherAVR ?m) =
      erased(502 := 4, 503 := 0, 504 := 7, 505 := 0, 506 := 0, 507 := 0,
             0x400 := 0, 0x401 := 0, 0x402 := 0, 0x403 := 0, 0x404 := 0, 0x405 := 0,
             500 := 0, 501 := 0)"
    by (simp add: th [THEN conjunct1] h l six f e)
  from th
  have "loadHeader (clear OtherAVR ?m) = \<lparr>savedReports = 0, uNextReport = 0\<rparr>"
    "dump OtherAVR (clear OtherAVR ?m) True = []" "\<not> isFull (clear OtherAVR ?m)"
    by blast+
  then show ?thesis
    using M by (simp add: h c e a readBlock_6 erased_def)
qed

end
